theory Spec2Isabelle
  imports Complex_Main "HOL-Library.Word" "HOL-Library.AList" "HOL-Library.Multiset"
begin

section \<open>Values, addresses and wire encoding\<close>

text \<open>
  The relay server (\<^verbatim>\<open>server.py\<close>) handles unpickled Python objects. The model keeps the
  part of Python's value universe that the server inspects: \<^verbatim>\<open>None\<close>, integers, strings,
  and dictionaries with string keys holding such values. Truthiness follows Python:
  \<^verbatim>\<open>None\<close>, \<^verbatim>\<open>0\<close> and the empty string are false.
\<close>

datatype pyval = VNone | VInt int | VStr string

fun truthy :: "pyval \<Rightarrow> bool" where
  "truthy VNone = False"
| "truthy (VInt i) = (i \<noteq> 0)"
| "truthy (VStr s) = (s \<noteq> [])"

datatype pyobj = Atom pyval | Dict "(string \<times> pyval) list"

fun truthy_obj :: "pyobj \<Rightarrow> bool" where
  "truthy_obj (Atom v) = truthy v"
| "truthy_obj (Dict d) = (d \<noteq> [])"

datatype exn = KeyError | StructError | AttributeError | TypeError | UnpicklingError

type_synonym byte = "8 word"
type_synonym bytes = "byte list"

text \<open>An address is a Python tuple \<^verbatim>\<open>(ip, port)\<close>. The socket layer yields integer ports; the
  registry stores whatever port value a handshake declared.\<close>

type_synonym addr = "string \<times> pyval"

text \<open>Big-endian fields of \<^verbatim>\<open>struct.pack\<close> / \<^verbatim>\<open>struct.unpack\<close>.\<close>

definition be_nat :: "bytes \<Rightarrow> nat" where
  "be_nat bs = foldl (\<lambda>a b. a * 256 + unat b) 0 bs"

definition u16_be :: "nat \<Rightarrow> bytes" where
  "u16_be n = [of_nat (n div 256), of_nat n]"

definition u32_be :: "nat \<Rightarrow> bytes" where
  "u32_be n = [of_nat (n div 16777216), of_nat (n div 65536), of_nat (n div 256), of_nat n]"

definition VIDEO_HDR_SIZE :: nat where
  "VIDEO_HDR_SIZE = 8"

definition MAX_UDP_PAYLOAD :: nat where
  "MAX_UDP_PAYLOAD = 60000"

definition FRAME_TTL :: real where
  "FRAME_TTL = 2"

text \<open>\<^verbatim>\<open>struct.pack(">IHH", a, b, c)\<close> raises \<^verbatim>\<open>struct.error\<close> when a field is out of range.\<close>

definition pack_IHH :: "nat \<Rightarrow> nat \<Rightarrow> nat \<Rightarrow> exn + bytes" where
  "pack_IHH a b c =
     (if a < 4294967296 \<and> b < 65536 \<and> c < 65536
      then Inr (u32_be a @ u16_be b @ u16_be c) else Inl StructError)"

text \<open>\<^verbatim>\<open>struct.unpack(">IHH", hdr)\<close> on the eight header bytes.\<close>

definition unpack_IHH :: "bytes \<Rightarrow> nat \<times> nat \<times> nat" where
  "unpack_IHH hdr = (be_nat (take 4 hdr), be_nat (take 2 (drop 4 hdr)), be_nat (take 2 (drop 6 hdr)))"

section \<open>Fragment reassembly (\<^verbatim>\<open>video_udp_listener\<close>, lines 164 to 181)\<close>

record entry =
  parts :: "nat \<rightharpoonup> bytes"
  total :: nat
  ts :: real

type_synonym key = "addr \<times> nat"
type_synonym reassembly = "key \<rightharpoonup> entry"

datatype reasm_result = Discarded | Stored | Completed bytes | Raised exn

text \<open>\<^verbatim>\<open>[entry['parts'][i] for i in range(total)]\<close>: a missing index raises \<^verbatim>\<open>KeyError\<close>.\<close>

fun collect_parts :: "(nat \<rightharpoonup> bytes) \<Rightarrow> nat list \<Rightarrow> exn + bytes list" where
  "collect_parts ps [] = Inr []"
| "collect_parts ps (i # is) =
     (case ps i of
        None \<Rightarrow> Inl KeyError
      | Some b \<Rightarrow> (case collect_parts ps is of Inl e \<Rightarrow> Inl e | Inr bs \<Rightarrow> Inr (b # bs)))"

text \<open>
  One datagram through the reassembler. \<open>now\<close> is the clock reading stored as the
  last-touched timestamp (line 177; the reading of line 174 is overwritten under the same
  lock). \<^verbatim>\<open>len(entry['parts'])\<close> is the number of distinct stored indices. On a
  \<^verbatim>\<open>KeyError\<close> the buffer, already updated, stays in the table.
\<close>

definition reassemble :: "reassembly \<Rightarrow> real \<Rightarrow> addr \<Rightarrow> bytes \<Rightarrow> reassembly \<times> reasm_result" where
  "reassemble vr now sender pkt =
     (if pkt = [] \<or> length pkt < VIDEO_HDR_SIZE then (vr, Discarded)
      else
        let hdr = take VIDEO_HDR_SIZE pkt;
            payload = drop VIDEO_HDR_SIZE pkt;
            (frame_id, total_parts, part_idx) = unpack_IHH hdr;
            k = (sender, frame_id);
            entry0 = (case vr k of
                        None \<Rightarrow> \<lparr>parts = Map.empty, total = total_parts, ts = now\<rparr>
                      | Some e \<Rightarrow> e);
            entry1 = entry0\<lparr>parts := (parts entry0)(part_idx \<mapsto> payload), ts := now\<rparr>
        in if card (dom (parts entry1)) = total entry1
           then (case collect_parts (parts entry1) [0..<total entry1] of
                   Inl e \<Rightarrow> (vr(k \<mapsto> entry1), Raised e)
                 | Inr ps \<Rightarrow> (vr(k := None), Completed (concat ps)))
           else (vr(k \<mapsto> entry1), Stored))"

text \<open>One pass of \<^verbatim>\<open>cleanup_old_reassembly\<close> at clock reading \<open>now\<close> (lines 61 to 68).\<close>

definition cleanup_old_reassembly :: "reassembly \<Rightarrow> real \<Rightarrow> reassembly" where
  "cleanup_old_reassembly vr now =
     (\<lambda>k. case vr k of
             None \<Rightarrow> None
           | Some v \<Rightarrow> if now - ts v > FRAME_TTL then None else Some v)"

text \<open>\<^verbatim>\<open>udp_sock.recvfrom(bufsize)\<close> returns at most \<open>bufsize\<close> bytes of the datagram and drops
  the rest.\<close>

definition recvfrom :: "nat \<Rightarrow> bytes \<Rightarrow> bytes" where
  "recvfrom bufsize dgram = take bufsize dgram"

text \<open>
  The reassembly table under a schedule of datagram arrivals and sweeper passes. A
  \<open>Datagram\<close> event holds the arrival time, the source address and the datagram as it was
  sent; the listener reads it with the buffer size of line 164.
\<close>

datatype event = Datagram real addr bytes | Sweep real

fun run :: "reassembly \<Rightarrow> event list \<Rightarrow> reassembly \<times> reasm_result list" where
  "run vr [] = (vr, [])"
| "run vr (Datagram t s dgram # es) =
     (let (vr1, r) = reassemble vr t s (recvfrom (MAX_UDP_PAYLOAD + VIDEO_HDR_SIZE + 64) dgram);
          (vr2, rs) = run vr1 es
      in (vr2, r # rs))"
| "run vr (Sweep t # es) = run (cleanup_old_reassembly vr t) es"

text \<open>The datagram a sender builds for fragment \<open>idx\<close> of \<open>n\<close> (client lines 334 to 340).\<close>

definition fragment_pkt :: "nat \<Rightarrow> nat \<Rightarrow> nat \<Rightarrow> bytes \<Rightarrow> bytes" where
  "fragment_pkt fid n idx part = u32_be fid @ u16_be n @ u16_be idx @ part"

text \<open>The datagrams of a schedule, without their arrival times.\<close>

fun datagrams :: "event list \<Rightarrow> (addr \<times> bytes) list" where
  "datagrams [] = []"
| "datagrams (Datagram t s pkt # es) = (s, pkt) # datagrams es"
| "datagrams (Sweep t # es) = datagrams es"

text \<open>The reassembly key of a datagram (lines 165 to 170); a datagram shorter than the header
  has none.\<close>

definition dgram_key :: "addr \<times> bytes \<Rightarrow> key option" where
  "dgram_key d =
     (if length (snd d) < VIDEO_HDR_SIZE then None
      else Some (fst d, fst (unpack_IHH (take VIDEO_HDR_SIZE (snd d)))))"

text \<open>
  A schedule stays within the TTL window of the key \<open>k\<close> when no sweeper pass runs more
  than \<open>FRAME_TTL\<close> after the latest datagram of that key before it (\<open>prev\<close> is the
  arrival time of that datagram, if any).
\<close>

fun in_window :: "key \<Rightarrow> real option \<Rightarrow> event list \<Rightarrow> bool" where
  "in_window k prev [] = True"
| "in_window k prev (Datagram t s dgram # es) =
     in_window k (if dgram_key (s, dgram) = Some k then Some t else prev) es"
| "in_window k prev (Sweep t # es) =
     ((case prev of None \<Rightarrow> True | Some t0 \<Rightarrow> \<not> (t - t0 > FRAME_TTL)) \<and> in_window k prev es)"

text \<open>The outcomes that a schedule produces for the datagrams of the key \<open>k\<close>, in order.\<close>

definition key_results :: "key \<Rightarrow> reassembly \<Rightarrow> event list \<Rightarrow> reasm_result list" where
  "key_results k vr evs =
     map snd (filter (\<lambda>dr. dgram_key (fst dr) = Some k) (zip (datagrams evs) (snd (run vr evs))))"

text \<open>The buffer that holds exactly the fragments \<open>seen\<close> of the payload split as \<open>frs\<close>.\<close>

definition seen_entry :: "bytes list \<Rightarrow> nat list \<Rightarrow> real \<Rightarrow> entry" where
  "seen_entry frs seen t =
     \<lparr>parts = (\<lambda>j. if j \<in> set seen then Some (frs ! j) else None), total = length frs, ts = t\<rparr>"

section \<open>Session registry (the shared dictionaries, lines 24 to 28)\<close>

text \<open>
  A connection is identified by a number; a registered client is the tuple
  \<^verbatim>\<open>(conn, addr, username)\<close>. The dictionaries that the server iterates in insertion order
  (\<^verbatim>\<open>meet_video_addrs\<close>, \<^verbatim>\<open>meet_audio_addrs\<close>) are association lists updated in place;
  the others are maps. A Python set of addresses is a list; \<^verbatim>\<open>add\<close> is \<open>List.insert\<close>,
  the copy \<^verbatim>\<open>set(addrs)\<close> is \<open>remdups\<close>, and the iteration order, which Python leaves
  unspecified, is the order of the list.
\<close>

type_synonym conn = nat
type_synonym client = "conn \<times> addr \<times> pyval"

record registry =
  meet_general_clients :: "pyval \<rightharpoonup> client list"
  meet_video_addrs :: "(pyval \<times> addr list) list"
  meet_audio_addrs :: "(pyval \<times> addr list) list"
  udp_to_meet :: "addr \<rightharpoonup> pyval"
  udp_to_user :: "addr \<rightharpoonup> pyval"

definition empty_registry :: registry where
  "empty_registry =
     \<lparr>meet_general_clients = Map.empty, meet_video_addrs = [], meet_audio_addrs = [],
      udp_to_meet = Map.empty, udp_to_user = Map.empty\<rparr>"

section \<open>Video relay (\<^verbatim>\<open>video_udp_listener\<close>, lines 182 to 211)\<close>

text \<open>
  \<^verbatim>\<open>int(time.time() * 1000) & 0xFFFFFFFF\<close> (line 203). The argument \<open>ms\<close> is the value of
  the double \<^verbatim>\<open>time.time() * 1000\<close>, the clock in milliseconds as the interpreter computed
  it; \<^verbatim>\<open>int\<close> truncates that value towards zero, exactly, and the mask keeps its low 32
  bits.
\<close>

definition frame_id_out :: "real \<Rightarrow> nat" where
  "frame_id_out ms =
     nat ((if 0 \<le> ms then \<lfloor>ms\<rfloor> else \<lceil>ms\<rceil>) mod 4294967296)"

text \<open>
  The loop over \<^verbatim>\<open>range(total)\<close> (lines 204 to 211). A failing \<^verbatim>\<open>sendto\<close> is swallowed,
  so the result lists the datagrams handed to the socket; \<^verbatim>\<open>struct.pack\<close> stands outside
  the inner \<^verbatim>\<open>try\<close>, so its error ends the loop and reaches the outer handler.
\<close>

fun send_fragments :: "bytes \<Rightarrow> nat \<Rightarrow> nat \<Rightarrow> nat list \<Rightarrow> bytes list \<times> exn option" where
  "send_fragments pb fid tot [] = ([], None)"
| "send_fragments pb fid tot (idx # rest) =
     (let start = idx * MAX_UDP_PAYLOAD;
          part = take MAX_UDP_PAYLOAD (drop start pb)
      in case pack_IHH fid tot idx of
           Inl e \<Rightarrow> ([], Some e)
         | Inr hdr_out \<Rightarrow>
             (let (ds, r) = send_fragments pb fid tot rest in ((hdr_out @ part) # ds, r)))"

text \<open>Lines 201 to 211 for one peer; \<open>ms\<close> is the millisecond clock value of line 203.\<close>

definition refragment :: "bytes \<Rightarrow> real \<Rightarrow> bytes list \<times> exn option" where
  "refragment payload_bytes ms =
     (let max_payload = MAX_UDP_PAYLOAD;
          tot = (length payload_bytes + max_payload - 1) div max_payload
      in send_fragments payload_bytes (frame_id_out ms) tot [0..<tot])"

text \<open>The loop over the peers (lines 197 to 211); \<open>clock peer\<close> is the millisecond clock
  value computed while serving \<open>peer\<close>.\<close>

fun forward_peers :: "bytes \<Rightarrow> (addr \<Rightarrow> real) \<Rightarrow> addr \<Rightarrow> addr list \<Rightarrow> (addr \<times> bytes) list \<times> exn option" where
  "forward_peers pb clock sender [] = ([], None)"
| "forward_peers pb clock sender (peer # ps) =
     (if peer = sender then forward_peers pb clock sender ps
      else
        (case refragment pb (clock peer) of
           (ds, Some e) \<Rightarrow> (map (Pair peer) ds, Some e)
         | (ds, None) \<Rightarrow>
             (let (out, r) = forward_peers pb clock sender ps in (map (Pair peer) ds @ out, r))))"

text \<open>
  Lines 183 to 191: the exact entry of \<^verbatim>\<open>udp_to_meet\<close>, and when that is missing or falsy
  the first meeting, in insertion order, with a video address on the sender's IP.
  \<^verbatim>\<open>None\<close> stands for no result.
\<close>

definition lookup_meeting :: "registry \<Rightarrow> addr \<Rightarrow> pyval" where
  "lookup_meeting reg sender =
     (let meet = (case udp_to_meet reg sender of None \<Rightarrow> VNone | Some m \<Rightarrow> m)
      in if \<not> truthy meet
         then (case find (\<lambda>(mid, addrs). list_ex (\<lambda>a. fst a = fst sender) addrs)
                         (meet_video_addrs reg) of
                 None \<Rightarrow> meet
               | Some (mid, addrs) \<Rightarrow> mid)
         else meet)"

definition relay :: "registry \<Rightarrow> (addr \<Rightarrow> real) \<Rightarrow> addr \<Rightarrow> bytes \<Rightarrow> (addr \<times> bytes) list \<times> exn option" where
  "relay reg clock sender payload_bytes =
     (let meet = lookup_meeting reg sender
      in if \<not> truthy meet then ([], None)
         else
           let peers = remdups (case map_of (meet_video_addrs reg) meet of None \<Rightarrow> [] | Some s \<Rightarrow> s)
           in forward_peers payload_bytes clock sender peers)"

text \<open>One iteration of \<^verbatim>\<open>video_udp_listener\<close>: reassembly, then the relay of a completed payload.\<close>

definition video_udp_listener :: "registry \<Rightarrow> reassembly \<Rightarrow> real \<Rightarrow> (addr \<Rightarrow> real) \<Rightarrow> addr \<Rightarrow> bytes
     \<Rightarrow> reassembly \<times> reasm_result \<times> (addr \<times> bytes) list \<times> exn option" where
  "video_udp_listener reg vr now clock sender dgram =
     (case reassemble vr now sender (recvfrom (MAX_UDP_PAYLOAD + VIDEO_HDR_SIZE + 64) dgram) of
        (vr1, Completed payload_bytes) \<Rightarrow> (vr1, Completed payload_bytes, relay reg clock sender payload_bytes)
      | (vr1, r) \<Rightarrow> (vr1, r, [], None))"

section \<open>Audio relay (\<^verbatim>\<open>audio_udp_listener\<close>, lines 219 to 232)\<close>

definition audio_udp_listener :: "registry \<Rightarrow> addr \<Rightarrow> bytes \<Rightarrow> (addr \<times> bytes) list" where
  "audio_udp_listener reg sender pkt =
     (if pkt = [] then []
      else
        let sender_ip = fst sender
        in concat (map (\<lambda>(mid, addrs).
               if list_ex (\<lambda>a. fst a = sender_ip) addrs
               then map (\<lambda>peer. (peer, pkt)) (filter (\<lambda>peer. peer \<noteq> sender) (remdups addrs))
               else [])
             (meet_audio_addrs reg)))"

section \<open>Control channel (\<^verbatim>\<open>handle_general\<close> and its helpers)\<close>

text \<open>
  The inbound side of a TCP connection is the list of byte chunks that successive
  \<^verbatim>\<open>recv\<close> calls can deliver; \<^verbatim>\<open>recv(n)\<close> returns at most \<open>n\<close> bytes of the first chunk
  and the empty byte string once the peer has closed.
\<close>

type_synonym stream = "bytes list"

fun recv :: "stream \<Rightarrow> nat \<Rightarrow> bytes \<times> stream" where
  "recv [] n = ([], [])"
| "recv (s # ss) n =
     (if s = [] then recv ss n
      else (take n s, if length s \<le> n then ss else drop n s # ss))"

text \<open>\<^verbatim>\<open>recv_exact\<close> (lines 36 to 43), with the accumulator \<^verbatim>\<open>data\<close> as an argument.\<close>

function recv_exact :: "stream \<Rightarrow> nat \<Rightarrow> bytes \<Rightarrow> bytes option \<times> stream" where
  "recv_exact st n data =
     (if length data < n
      then (case recv st (n - length data) of
              (p, st1) \<Rightarrow> if p = [] then (None, st1) else recv_exact st1 n (data @ p))
      else (Some data, st))"
  by pat_completeness auto
termination
proof (relation "measure (\<lambda>(st, n, data). n - length data)")
  show "wf (measure (\<lambda>(st, n, data). n - length data))" by simp
next
  fix st y :: stream and n :: nat and data x :: bytes
  assume "length data < n" and "x \<noteq> []"
  then have "0 < length x" by simp
  with \<open>length data < n\<close> have "n - (length data + length x) < n - length data"
    by arith
  then show "((y, n, data @ x), st, n, data) \<in> measure (\<lambda>(st, n, data). n - length data)"
    by simp
qed

text \<open>
  \<^verbatim>\<open>recv_pickle_prefixed\<close> (lines 45 to 53). \<open>loads\<close> stands for \<^verbatim>\<open>pickle.loads\<close>, which
  either raises or yields an object; the Python value \<^verbatim>\<open>None\<close> is \<open>Atom VNone\<close>.
\<close>

definition recv_pickle_prefixed :: "(bytes \<Rightarrow> exn + pyobj) \<Rightarrow> stream \<Rightarrow> (exn + pyobj) \<times> stream" where
  "recv_pickle_prefixed loads st =
     (case recv_exact st 4 [] of
        (None, st1) \<Rightarrow> (Inr (Atom VNone), st1)
      | (Some hdr, st1) \<Rightarrow>
          if hdr = [] then (Inr (Atom VNone), st1)
          else (case recv_exact st1 (be_nat hdr) [] of
                  (None, st2) \<Rightarrow> (Inr (Atom VNone), st2)
                | (Some payload, st2) \<Rightarrow>
                    if payload = [] then (Inr (Atom VNone), st2) else (loads payload, st2)))"

text \<open>\<^verbatim>\<open>d.get(k)\<close> and \<^verbatim>\<open>d.get(k, default)\<close> on an unpickled dictionary.\<close>

definition dict_get :: "(string \<times> pyval) list \<Rightarrow> string \<Rightarrow> pyval \<Rightarrow> pyval" where
  "dict_get d k dflt = (case map_of d k of None \<Rightarrow> dflt | Some v \<Rightarrow> v)"

text \<open>\<^verbatim>\<open>table.setdefault(meet_id, set()).add(a)\<close> on an insertion-ordered dictionary of sets.\<close>

definition set_add :: "pyval \<Rightarrow> addr \<Rightarrow> (pyval \<times> addr list) list \<Rightarrow> (pyval \<times> addr list) list" where
  "set_add meet_id a table =
     AList.update meet_id (List.insert a (case map_of table meet_id of None \<Rightarrow> [] | Some s \<Rightarrow> s)) table"

text \<open>The registration under \<^verbatim>\<open>dict_lock\<close> (lines 81 to 94).\<close>

definition register :: "registry \<Rightarrow> conn \<Rightarrow> addr \<Rightarrow> (string \<times> pyval) list \<Rightarrow> registry" where
  "register reg conn addr info =
     (let username = dict_get info ''username'' VNone;
          meet_id = dict_get info ''meet_id'' VNone;
          vid_port = dict_get info ''video_udp_port'' VNone;
          aud_port = dict_get info ''audio_udp_port'' VNone;
          client_ip = fst addr;
          reg1 = reg\<lparr>meet_general_clients := (meet_general_clients reg)
                   (meet_id \<mapsto> (case meet_general_clients reg meet_id of None \<Rightarrow> [] | Some l \<Rightarrow> l)
                                @ [(conn, addr, username)])\<rparr>;
          reg2 = (if truthy vid_port
                  then reg1\<lparr>meet_video_addrs := set_add meet_id (client_ip, vid_port) (meet_video_addrs reg1),
                            udp_to_meet := (udp_to_meet reg1)((client_ip, vid_port) \<mapsto> meet_id),
                            udp_to_user := (udp_to_user reg1)((client_ip, vid_port) \<mapsto> username)\<rparr>
                  else reg1)
      in if truthy aud_port
         then reg2\<lparr>meet_audio_addrs := set_add meet_id (client_ip, aud_port) (meet_audio_addrs reg2)\<rparr>
         else reg2)"

text \<open>Lines 137 to 142 (and 143 to 148): drop the addresses on \<open>client_ip\<close> from one meeting's set.\<close>

definition discard_ip :: "pyval \<Rightarrow> string \<Rightarrow> (pyval \<times> addr list) list \<Rightarrow> (pyval \<times> addr list) list" where
  "discard_ip meet_id client_ip table =
     (case map_of table meet_id of
        None \<Rightarrow> table
      | Some s \<Rightarrow>
          let to_keep = filter (\<lambda>a. fst a \<noteq> client_ip) s
          in if to_keep \<noteq> [] then AList.update meet_id to_keep table else AList.delete meet_id table)"

text \<open>The \<^verbatim>\<open>finally\<close> block under \<^verbatim>\<open>dict_lock\<close> (lines 130 to 153).\<close>

definition deregister :: "registry \<Rightarrow> pyval \<Rightarrow> addr \<Rightarrow> registry" where
  "deregister reg meet_id addr =
     (let client_ip = fst addr;
          reg1 = (case meet_general_clients reg meet_id of
                    None \<Rightarrow> reg
                  | Some l \<Rightarrow>
                      let kept = filter (\<lambda>x. fst (snd x) \<noteq> addr) l
                      in reg\<lparr>meet_general_clients :=
                              (if kept = [] then (meet_general_clients reg)(meet_id := None)
                               else (meet_general_clients reg)(meet_id \<mapsto> kept))\<rparr>)
      in if truthy meet_id
         then reg1\<lparr>meet_video_addrs := discard_ip meet_id client_ip (meet_video_addrs reg1),
                   meet_audio_addrs := discard_ip meet_id client_ip (meet_audio_addrs reg1),
                   udp_to_meet := (\<lambda>k. if fst k = client_ip then None else udp_to_meet reg1 k),
                   udp_to_user := (\<lambda>k. if fst k = client_ip \<and> udp_to_meet reg1 k \<noteq> None then None
                                       else udp_to_user reg1 k)\<rparr>
         else reg1)"

text \<open>
  The handshake of \<^verbatim>\<open>handle_general\<close> (lines 73 to 96), given the outcome \<open>r\<close> of the
  first \<^verbatim>\<open>recv_pickle_prefixed\<close>. A rejected connection still runs the \<^verbatim>\<open>finally\<close> block,
  with \<^verbatim>\<open>meet_id\<close> still \<^verbatim>\<open>None\<close>, and is closed. \<^verbatim>\<open>info.get\<close> on an object that is
  not a dictionary raises \<^verbatim>\<open>AttributeError\<close>.
\<close>

datatype handshake_result = Rejected registry | Registered registry pyval

definition handshake :: "registry \<Rightarrow> conn \<Rightarrow> addr \<Rightarrow> exn + pyobj \<Rightarrow> handshake_result" where
  "handshake reg conn addr r =
     (case r of
        Inl e \<Rightarrow> Rejected (deregister reg VNone addr)
      | Inr info \<Rightarrow>
          if \<not> truthy_obj info then Rejected (deregister reg VNone addr)
          else (case info of
                  Atom v \<Rightarrow> Rejected (deregister reg VNone addr)
                | Dict d \<Rightarrow> Registered (register reg conn addr d) (dict_get d ''meet_id'' VNone)))"

text \<open>
  What the handler hands to a peer's socket: a length-prefixed pickled object
  (\<^verbatim>\<open>send_pickle_prefixed\<close>) or raw bytes (\<^verbatim>\<open>sendall\<close>). \<open>ok c x\<close> tells whether sending
  \<open>x\<close> on connection \<open>c\<close> succeeds; a failing send raises and is swallowed (lines 107 to
  110 and 123 to 126). The result lists the sends that succeeded, in order.
\<close>

datatype out = SendPickle pyobj | SendAll bytes

fun broadcast :: "(conn \<Rightarrow> out \<Rightarrow> bool) \<Rightarrow> addr \<Rightarrow> out \<Rightarrow> client list \<Rightarrow> (conn \<times> out) list" where
  "broadcast ok addr x [] = []"
| "broadcast ok addr x ((p_conn, p_addr, p_user) # peers) =
     (if p_addr \<noteq> addr
      then (if ok p_conn x then [(p_conn, x)] else []) @ broadcast ok addr x peers
      else broadcast ok addr x peers)"

text \<open>The file body loop (lines 114 to 126).\<close>

function relay_file :: "(conn \<Rightarrow> out \<Rightarrow> bool) \<Rightarrow> addr \<Rightarrow> client list \<Rightarrow> stream \<Rightarrow> int
     \<Rightarrow> stream \<times> (conn \<times> out) list" where
  "relay_file ok addr peers st remaining =
     (if remaining > 0
      then (let chunk_size = nat (min 1024 remaining)
            in case recv_exact st chunk_size [] of
                 (None, st1) \<Rightarrow> (st1, [])
               | (Some chunk, st1) \<Rightarrow>
                   if chunk = [] then (st1, [])
                   else (case relay_file ok addr peers st1 (remaining - int (length chunk)) of
                           (st2, outs) \<Rightarrow> (st2, broadcast ok addr (SendAll chunk) peers @ outs)))
      else (st, []))"
  by pat_completeness auto
termination
proof (relation "measure (\<lambda>(ok, addr, peers, st, remaining). nat remaining)")
  show "wf (measure (\<lambda>(ok, addr, peers, st, remaining). nat remaining))" by simp
next
  fix ok :: "conn \<Rightarrow> out \<Rightarrow> bool" and addr :: addr and peers :: "client list"
    and st :: stream and remaining :: int and chunk :: bytes and st1 :: stream
  assume "0 < remaining" and "chunk \<noteq> []"
  then have "0 < length chunk" by simp
  with \<open>0 < remaining\<close> have "nat (remaining - int (length chunk)) < nat remaining"
    by arith
  then show "((ok, addr, peers, st1, remaining - int (length chunk)), ok, addr, peers, st, remaining)
          \<in> measure (\<lambda>(ok, addr, peers, st, remaining). nat remaining)"
    by simp
qed

declare recv_exact.simps [simp del] relay_file.simps [simp del]


text \<open>
  One pass of the relay loop (lines 100 to 126), given the outcome \<open>r\<close> of
  \<^verbatim>\<open>recv_pickle_prefixed\<close> and the rest of the inbound stream. Comparing a size that is not
  an integer with \<^verbatim>\<open>0\<close> raises \<^verbatim>\<open>TypeError\<close>.
\<close>

datatype loop_step = Break | Continue | Raise exn

definition relay_message :: "(conn \<Rightarrow> out \<Rightarrow> bool) \<Rightarrow> registry \<Rightarrow> pyval \<Rightarrow> addr \<Rightarrow> exn + pyobj \<Rightarrow> stream
     \<Rightarrow> loop_step \<times> stream \<times> (conn \<times> out) list" where
  "relay_message ok reg meet_id addr r st =
     (case r of
        Inl e \<Rightarrow> (Raise e, st, [])
      | Inr msg \<Rightarrow>
          if msg = Atom VNone then (Break, st, [])
          else
            let peers = (case meet_general_clients reg meet_id of None \<Rightarrow> [] | Some l \<Rightarrow> l);
                outs = broadcast ok addr (SendPickle msg) peers
            in (case msg of
                  Atom v \<Rightarrow> (Raise AttributeError, st, outs)
                | Dict d \<Rightarrow>
                    if dict_get d ''msg_type'' VNone = VStr ''file''
                    then (case dict_get d ''size'' (VInt 0) of
                            VInt sz \<Rightarrow>
                              (case relay_file ok addr peers st sz of
                                 (st1, outs1) \<Rightarrow> (Continue, st1, outs @ outs1))
                          | VNone \<Rightarrow> (Raise TypeError, st, outs)
                          | VStr s \<Rightarrow> (Raise TypeError, st, outs))
                    else (Continue, st, outs)))"

text \<open>One pass of the loop on the inbound stream itself.\<close>

definition relay_iteration :: "(bytes \<Rightarrow> exn + pyobj) \<Rightarrow> (conn \<Rightarrow> out \<Rightarrow> bool) \<Rightarrow> registry \<Rightarrow> pyval \<Rightarrow> addr
     \<Rightarrow> stream \<Rightarrow> loop_step \<times> stream \<times> (conn \<times> out) list" where
  "relay_iteration loads ok reg meet_id addr st =
     (case recv_pickle_prefixed loads st of (r, st1) \<Rightarrow> relay_message ok reg meet_id addr r st1)"



section \<open>Example registries\<close>

text \<open>A meeting of two participants, A and B, on different hosts.\<close>

definition room1 :: registry where
  "room1 =
     \<lparr>meet_general_clients =
        [VStr ''Room1'' \<mapsto> [(1, (''10.0.0.1'', VInt 40001), VStr ''A''),
                              (2, (''10.0.0.2'', VInt 40002), VStr ''B'')]],
      meet_video_addrs = [(VStr ''Room1'', [(''10.0.0.2'', VInt 6000), (''10.0.0.1'', VInt 5000)])],
      meet_audio_addrs = [(VStr ''Room1'', [(''10.0.0.2'', VInt 6001), (''10.0.0.1'', VInt 5001)])],
      udp_to_meet = [(''10.0.0.1'', VInt 5000) \<mapsto> VStr ''Room1'', (''10.0.0.2'', VInt 6000) \<mapsto> VStr ''Room1''],
      udp_to_user = [(''10.0.0.1'', VInt 5000) \<mapsto> VStr ''A'', (''10.0.0.2'', VInt 6000) \<mapsto> VStr ''B'']\<rparr>"

text \<open>Two meetings with a participant each on the host \<^verbatim>\<open>10.0.0.1\<close>.\<close>

definition two_rooms :: registry where
  "two_rooms =
     \<lparr>meet_general_clients =
        [VStr ''Room1'' \<mapsto> [(1, (''10.0.0.1'', VInt 40001), VStr ''A''),
                              (2, (''10.0.0.2'', VInt 40002), VStr ''B'')],
         VStr ''Room2'' \<mapsto> [(3, (''10.0.0.1'', VInt 40003), VStr ''C''),
                              (4, (''10.0.0.3'', VInt 40004), VStr ''D'')]],
      meet_video_addrs = [],
      meet_audio_addrs = [(VStr ''Room1'', [(''10.0.0.2'', VInt 6001), (''10.0.0.1'', VInt 5001)]),
                          (VStr ''Room2'', [(''10.0.0.3'', VInt 7001), (''10.0.0.1'', VInt 5003)])],
      udp_to_meet = Map.empty,
      udp_to_user = Map.empty\<rparr>"

text \<open>A meeting of three participants on the control channel.\<close>

definition trio :: registry where
  "trio =
     \<lparr>meet_general_clients =
        [VStr ''Room1'' \<mapsto> [(1, (''10.0.0.1'', VInt 40001), VStr ''A''),
                              (2, (''10.0.0.2'', VInt 40002), VStr ''B''),
                              (3, (''10.0.0.3'', VInt 40003), VStr ''C'')]],
      meet_video_addrs = [], meet_audio_addrs = [],
      udp_to_meet = Map.empty, udp_to_user = Map.empty\<rparr>"




section \<open>Properties of the wire header\<close>

lemma be_u16: "n < 65536 \<Longrightarrow> be_nat (u16_be n) = n"
  by (simp add: be_nat_def u16_be_def unat_of_nat)

lemma be_u32:
  assumes "n < 4294967296"
  shows "be_nat (u32_be n) = n"
proof -
  define a where "a = n div 256"
  define b where "b = a div 256"
  define c where "c = b div 256"
  have n: "n = 256 * a + n mod 256" unfolding a_def by simp
  have a: "a = 256 * b + a mod 256" unfolding b_def by simp
  have b: "b = 256 * c + b mod 256" unfolding c_def by simp
  have c: "c < 256" using assms unfolding c_def b_def a_def by (simp add: div_mult2_eq)
  have d1: "n div 65536 = b" unfolding b_def a_def by (simp add: div_mult2_eq)
  have d2: "n div 16777216 = c" unfolding c_def b_def a_def by (simp add: div_mult2_eq)
  have "be_nat (u32_be n) = ((c mod 256 * 256 + b mod 256) * 256 + a mod 256) * 256 + n mod 256"
    by (simp add: be_nat_def u32_be_def unat_of_nat d1 d2 a_def[symmetric])
  also have "\<dots> = n" using n a b c by simp
  finally show ?thesis .
qed

lemma unpack_fragment_pkt:
  "fid < 4294967296 \<Longrightarrow> n < 65536 \<Longrightarrow> idx < 65536 \<Longrightarrow>
   unpack_IHH (take VIDEO_HDR_SIZE (fragment_pkt fid n idx part)) = (fid, n, idx)"
  using be_u16[of n] be_u16[of idx] be_u32[of fid]
  by (simp add: unpack_IHH_def fragment_pkt_def VIDEO_HDR_SIZE_def u32_be_def u16_be_def)

lemma drop_fragment_pkt:
  "drop VIDEO_HDR_SIZE (fragment_pkt fid n idx part) = part"
  by (simp add: fragment_pkt_def VIDEO_HDR_SIZE_def u32_be_def u16_be_def)

lemma length_fragment_pkt:
  "length (fragment_pkt fid n idx part) = 8 + length part"
  by (simp add: fragment_pkt_def VIDEO_HDR_SIZE_def u32_be_def u16_be_def)

section \<open>Properties of reassembly\<close>

lemma collect_parts_all:
  "(\<And>i. i \<in> set is \<Longrightarrow> ps i = Some (f i)) \<Longrightarrow> collect_parts ps is = Inr (map f is)"
  by (induction "is") auto

lemma reassemble_fragment:
  assumes "fid < 4294967296" "length frs < 65536" "i < length frs" "i \<notin> set seen" "distinct seen"
    and "set seen \<subseteq> {0..<length frs}"
    and "if seen = [] then vr (sender, fid) = None else vr (sender, fid) = Some (seen_entry frs seen t0)"
  shows "reassemble vr t sender (fragment_pkt fid (length frs) i (frs ! i)) =
     (if set (i # seen) = {0..<length frs}
      then (vr((sender, fid) := None), Completed (concat frs))
      else (vr((sender, fid) \<mapsto> seen_entry frs (seen @ [i]) t), Stored))"
proof -
  let ?N = "length frs"
  let ?pkt = "fragment_pkt fid ?N i (frs ! i)"
  have hdr: "unpack_IHH (take VIDEO_HDR_SIZE ?pkt) = (fid, ?N, i)"
    using assms by (simp add: unpack_fragment_pkt)
  have len: "\<not> (?pkt = [] \<or> length ?pkt < VIDEO_HDR_SIZE)"
    by (auto simp add: VIDEO_HDR_SIZE_def fragment_pkt_def u32_be_def u16_be_def)
  let ?e0 = "(case vr (sender, fid) of None \<Rightarrow> \<lparr>parts = Map.empty, total = ?N, ts = t\<rparr> | Some e \<Rightarrow> e)"
  have e0: "parts ?e0 = (\<lambda>j. if j \<in> set seen then Some (frs ! j) else None) \<and> total ?e0 = ?N"
    using assms(7) by (auto simp: seen_entry_def split: if_splits)
  let ?e1 = "?e0\<lparr>parts := (parts ?e0)(i \<mapsto> frs ! i), ts := t\<rparr>"
  have e1: "?e1 = seen_entry frs (seen @ [i]) t"
    using e0 by (auto simp: seen_entry_def fun_eq_iff)
  have dom: "dom (parts (seen_entry frs (seen @ [i]) t)) = set (i # seen)"
    by (auto simp: seen_entry_def dom_def)
  have card: "card (set (i # seen)) = Suc (length seen)"
    using assms by (simp add: distinct_card)
  have sub: "set (i # seen) \<subseteq> {0..<?N}" using assms by auto
  have full: "card (set (i # seen)) = ?N \<longleftrightarrow> set (i # seen) = {0..<?N}"
    using sub by (metis card_atLeastLessThan card_subset_eq finite_atLeastLessThan minus_nat.diff_0)
  have coll: "set (i # seen) = {0..<?N} \<Longrightarrow>
      collect_parts (parts (seen_entry frs (seen @ [i]) t)) [0..<?N] = Inr (map (\<lambda>j. frs ! j) [0..<?N])"
    by (rule collect_parts_all) (auto simp: seen_entry_def)
  have cat: "concat (map (\<lambda>j. frs ! j) [0..<?N]) = concat frs"
    by (simp add: map_nth)
  have tot: "total (seen_entry frs (seen @ [i]) t) = ?N" by (simp add: seen_entry_def)
  show ?thesis
    unfolding reassemble_def
    using len hdr
    apply (simp only: if_False Let_def prod.case drop_fragment_pkt e1 dom tot full)
    apply (cases "set (i # seen) = {0..<?N}")
     apply (simp_all add: coll cat)
    done
qed


lemma cleanup_keep:
  "vr k = Some e \<Longrightarrow> \<not> (t - ts e > FRAME_TTL) \<Longrightarrow> cleanup_old_reassembly vr t k = Some e"
  by (simp add: cleanup_old_reassembly_def)

lemma cleanup_none: "vr k = None \<Longrightarrow> cleanup_old_reassembly vr t k = None"
  by (simp add: cleanup_old_reassembly_def)

lemma key_results_Nil: "key_results k vr [] = []"
  by (simp add: key_results_def)

lemma key_results_Sweep:
  "key_results k vr (Sweep t # es) = key_results k (cleanup_old_reassembly vr t) es"
  by (simp add: key_results_def)

lemma key_results_Datagram:
  "key_results k vr (Datagram t s dgram # es) =
     (if dgram_key (s, dgram) = Some k
      then [snd (reassemble vr t s (recvfrom (MAX_UDP_PAYLOAD + VIDEO_HDR_SIZE + 64) dgram))] else [])
     @ key_results k (fst (reassemble vr t s (recvfrom (MAX_UDP_PAYLOAD + VIDEO_HDR_SIZE + 64) dgram))) es"
  by (simp add: key_results_def split_beta Let_def)

lemma key_results_none:
  "filter (\<lambda>d. dgram_key d = Some k) (datagrams es) = [] \<Longrightarrow> key_results k vr es = []"
proof (induction es arbitrary: vr)
  case Nil
  show ?case by (simp add: key_results_Nil)
next
  case (Cons e es)
  then show ?case
    by (cases e) (auto simp: key_results_Sweep key_results_Datagram split: if_splits)
qed

lemma reassemble_other_key:
  assumes "dgram_key (s, dgram) \<noteq> Some k"
  shows "fst (reassemble vr t s (recvfrom (MAX_UDP_PAYLOAD + VIDEO_HDR_SIZE + 64) dgram)) k = vr k"
proof -
  let ?pkt = "recvfrom (MAX_UDP_PAYLOAD + VIDEO_HDR_SIZE + 64) dgram"
  have l: "length ?pkt < VIDEO_HDR_SIZE \<longleftrightarrow> length dgram < VIDEO_HDR_SIZE"
    by (auto simp: recvfrom_def VIDEO_HDR_SIZE_def MAX_UDP_PAYLOAD_def)
  have h: "take VIDEO_HDR_SIZE ?pkt = take VIDEO_HDR_SIZE dgram"
    by (simp add: recvfrom_def VIDEO_HDR_SIZE_def MAX_UDP_PAYLOAD_def min_def)
  show ?thesis
  proof (cases "length dgram < VIDEO_HDR_SIZE")
    case True
    then show ?thesis using l by (simp add: reassemble_def)
  next
    case False
    obtain f n i where u: "unpack_IHH (take VIDEO_HDR_SIZE dgram) = (f, n, i)"
      by (cases "unpack_IHH (take VIDEO_HDR_SIZE dgram)") auto
    with assms False have ne: "(s, f) \<noteq> k" by (auto simp: dgram_key_def)
    have ne0: "?pkt \<noteq> []" using False l by (auto simp: VIDEO_HDR_SIZE_def)
    show ?thesis
      unfolding reassemble_def using False l ne ne0
      by (simp add: h u Let_def split: sum.splits)
  qed
qed

lemma dgram_key_fragment:
  "fid < 4294967296 \<Longrightarrow> n < 65536 \<Longrightarrow> idx < 65536 \<Longrightarrow>
   dgram_key (s, fragment_pkt fid n idx part) = Some (s, fid)"
  by (simp add: dgram_key_def unpack_fragment_pkt length_fragment_pkt)
     (simp add: VIDEO_HDR_SIZE_def)

lemma recvfrom_fragment:
  "length part \<le> MAX_UDP_PAYLOAD + 64 \<Longrightarrow>
   recvfrom (MAX_UDP_PAYLOAD + VIDEO_HDR_SIZE + 64) (fragment_pkt fid n idx part) = fragment_pkt fid n idx part"
  by (simp add: recvfrom_def length_fragment_pkt VIDEO_HDR_SIZE_def)

lemma run_permutation:
  assumes "fid < 4294967296" "length frs < 65536"
    and "\<forall>part \<in> set frs. length part \<le> MAX_UDP_PAYLOAD + 64"
  shows "distinct (seen @ rest) \<Longrightarrow> set (seen @ rest) = {0..<length frs} \<Longrightarrow> rest \<noteq> [] \<Longrightarrow>
    (if seen = [] then vr (sender, fid) = None
     else vr (sender, fid) = Some (seen_entry frs seen t0) \<and> prev = Some t0) \<Longrightarrow>
    filter (\<lambda>d. dgram_key d = Some (sender, fid)) (datagrams evs)
      = map (\<lambda>i. (sender, fragment_pkt fid (length frs) i (frs ! i))) rest \<Longrightarrow>
    in_window (sender, fid) prev evs \<Longrightarrow>
    key_results (sender, fid) vr evs = replicate (length rest - 1) Stored @ [Completed (concat frs)]"
proof (induction evs arbitrary: vr seen rest prev t0)
  case Nil
  then show ?case by simp
next
  case (Cons ev evs)
  let ?k = "(sender, fid)"
  let ?B = "MAX_UDP_PAYLOAD + VIDEO_HDR_SIZE + 64"
  show ?case
  proof (cases ev)
    case (Sweep t)
    have inv: "if seen = [] then cleanup_old_reassembly vr t ?k = None
     else cleanup_old_reassembly vr t ?k = Some (seen_entry frs seen t0) \<and> prev = Some t0"
      using Cons.prems(4,6) Sweep
      by (auto simp: cleanup_none cleanup_keep seen_entry_def split: if_splits)
    show ?thesis
      using Cons.IH[where seen=seen and rest=rest and vr="cleanup_old_reassembly vr t" and ?t0.0=t0 and prev=prev,
          OF Cons.prems(1,2,3) inv] Cons.prems(5,6) Sweep
      by (simp add: key_results_Sweep)
  next
    case (Datagram t s dgram)
    show ?thesis
    proof (cases "dgram_key (s, dgram) = Some ?k")
      case False
      let ?vr1 = "fst (reassemble vr t s (recvfrom ?B dgram))"
      have same: "?vr1 ?k = vr ?k" by (rule reassemble_other_key[OF False])
      have inv: "if seen = [] then ?vr1 ?k = None
         else ?vr1 ?k = Some (seen_entry frs seen t0) \<and> prev = Some t0"
        using Cons.prems(4) same by (auto split: if_splits)
      have dg: "filter (\<lambda>d. dgram_key d = Some ?k) (datagrams evs)
          = map (\<lambda>i. (sender, fragment_pkt fid (length frs) i (frs ! i))) rest"
        using Cons.prems(5) Datagram False by simp
      have w: "in_window ?k prev evs" using Cons.prems(6) Datagram False by simp
      show ?thesis
        using Cons.IH[where seen=seen and rest=rest and vr="?vr1" and ?t0.0=t0 and prev=prev,
          OF Cons.prems(1,2,3) inv dg w] Datagram False
        by (simp add: key_results_Datagram)
    next
      case True
      from Cons.prems(5) Datagram True obtain i rest' where rest: "rest = i # rest'"
        and s: "s = sender" and pkt: "dgram = fragment_pkt fid (length frs) i (frs ! i)"
        and dg: "filter (\<lambda>d. dgram_key d = Some ?k) (datagrams evs)
           = map (\<lambda>i. (sender, fragment_pkt fid (length frs) i (frs ! i))) rest'"
        by (cases rest) auto
      have i: "i < length frs" "i \<notin> set seen" "distinct seen" "set seen \<subseteq> {0..<length frs}"
        using Cons.prems(1,2) rest by auto
      have pre: "if seen = [] then vr ?k = None else vr ?k = Some (seen_entry frs seen t0)"
        using Cons.prems(4) by (auto split: if_splits)
      have rf: "recvfrom ?B dgram = dgram"
        unfolding pkt using assms(3) i(1) by (intro recvfrom_fragment) simp
      note step = reassemble_fragment[where vr=vr and sender=sender and ?t0.0=t0 and t=t, OF assms(1,2) i pre]
      show ?thesis
      proof (cases "rest' = []")
        case True
        then have "set (i # seen) = {0..<length frs}" using Cons.prems(2) rest by auto
        moreover have "key_results ?k (vr(?k := None)) evs = []"
          using dg True by (simp add: key_results_none)
        ultimately show ?thesis
          using step Datagram s pkt rest True \<open>dgram_key (s, dgram) = Some ?k\<close> rf
          by (simp add: key_results_Datagram)
      next
        case False
        then obtain j where "j \<in> set rest'" by (cases rest') auto
        then have "j \<in> {0..<length frs}" "j \<notin> set (i # seen)"
          using Cons.prems(1,2) rest by auto
        then have nfull: "set (i # seen) \<noteq> {0..<length frs}" by blast
        let ?vr1 = "vr(?k \<mapsto> seen_entry frs (seen @ [i]) t)"
        have inv: "if seen @ [i] = [] then ?vr1 ?k = None
           else ?vr1 ?k = Some (seen_entry frs (seen @ [i]) t) \<and> Some t = Some t"
          by simp
        have d: "distinct ((seen @ [i]) @ rest')" "set ((seen @ [i]) @ rest') = {0..<length frs}"
          using Cons.prems(1,2) rest by auto
        have w: "in_window ?k (Some t) evs"
          using Cons.prems(6) Datagram \<open>dgram_key (s, dgram) = Some ?k\<close> by simp
        have "key_results ?k ?vr1 evs = replicate (length rest' - 1) Stored @ [Completed (concat frs)]"
          by (rule Cons.IH[where seen="seen @ [i]" and rest=rest' and vr="?vr1" and ?t0.0=t and prev="Some t",
            OF d False inv dg w])
        then show ?thesis
          using step nfull Datagram s pkt rest False \<open>dgram_key (s, dgram) = Some ?k\<close> rf
          by (cases rest') (simp_all add: key_results_Datagram)
      qed
    qed
  qed
qed

text \<open>
  Claim C1, as stated, holds for every key. The listener keeps an existing buffer of the key,
  with its stored parts and its total (lines 172 to 176): when a fragment of an earlier frame
  with the same frame id is still buffered, a later payload is completed with the old bytes.
  Below, the payload \<open>[5]\<close>, sent as its single fragment within the window, is emitted as
  \<open>[5, 9]\<close>. The client's camera loop restarts its frame counter whenever the camera is
  started (client line 320), so frame ids recur on one source address.
\<close>

theorem stale_buffer_counterexample:
  "snd (run Map.empty
     [Datagram 0 (''10.0.0.1'', VInt 5000) (fragment_pkt 7 2 1 [9]),
      Sweep 1,
      Datagram 1 (''10.0.0.1'', VInt 5000) (fragment_pkt 7 1 0 [5])])
   = [Stored, Completed [5, 9]]"
proof -
  let ?s = "(''10.0.0.1'', VInt 5000) :: addr"
  have h0: "unpack_IHH (take VIDEO_HDR_SIZE (fragment_pkt 7 2 (Suc 0) [9])) = (7, 2, Suc 0)"
    by (simp add: unpack_fragment_pkt)
  have h1: "unpack_IHH (take VIDEO_HDR_SIZE (fragment_pkt 7 (Suc 0) 0 [5])) = (7, Suc 0, 0)"
    by (simp add: unpack_fragment_pkt)
  have l: "\<And>n i p. \<not> (fragment_pkt 7 n i [p] = [] \<or> length (fragment_pkt 7 n i [p]) < VIDEO_HDR_SIZE)"
    by (simp add: fragment_pkt_def u32_be_def u16_be_def VIDEO_HDR_SIZE_def)
  have rf: "\<And>n i p. recvfrom (MAX_UDP_PAYLOAD + VIDEO_HDR_SIZE + 64) (fragment_pkt 7 n i [p]) = fragment_pkt 7 n i [p]"
    by (simp add: recvfrom_def length_fragment_pkt MAX_UDP_PAYLOAD_def)
  have u: "[0..<2] = [0, Suc 0]" by (simp add: upt_rec)
  have r0: "reassemble Map.empty 0 ?s (fragment_pkt 7 2 (Suc 0) [9]) =
     ([(?s, 7) \<mapsto> \<lparr>parts = [Suc 0 \<mapsto> [9]], total = 2, ts = 0\<rparr>], Stored)"
    unfolding reassemble_def using l by (simp add: h0 drop_fragment_pkt)
  have c1: "cleanup_old_reassembly [(?s, 7) \<mapsto> \<lparr>parts = [Suc 0 \<mapsto> [9]], total = 2, ts = 0\<rparr>] 1
         = [(?s, 7) \<mapsto> \<lparr>parts = [Suc 0 \<mapsto> [9]], total = 2, ts = 0\<rparr>]"
    by (auto simp: cleanup_old_reassembly_def FRAME_TTL_def fun_eq_iff)
  have r1: "reassemble [(?s, 7) \<mapsto> \<lparr>parts = [Suc 0 \<mapsto> [9]], total = 2, ts = 0\<rparr>] 1 ?s (fragment_pkt 7 (Suc 0) 0 [5]) =
     (Map.empty, Completed [5, 9])"
    unfolding reassemble_def using l by (simp add: h1 drop_fragment_pkt u)
  show ?thesis
    by (simp add: rf r0 c1 r1)
qed

text \<open>
  Claim C1, amended by the premise that no buffer exists for the key when the first fragment
  arrives. A payload is split into \<open>N = length frs\<close> fragments (\<open>1 \<le> N \<le> 65535\<close>, the
  range of the 16-bit total field) of at most 60064 bytes each (what \<^verbatim>\<open>recvfrom\<close> reads
  behind the header), sent as datagrams with frame id \<open>fid\<close>, total \<open>N\<close> and their
  index. These datagrams reach the listener in the order of any permutation of \<open>0..N-1\<close>,
  interleaved with any datagrams of other keys and with sweeper passes that stay within the
  TTL of the key's latest datagram. Then every datagram of the key but the last is stored
  without output, and the last one emits the concatenation of the fragments in index order,
  the original buffer, whatever the permutation.
\<close>

theorem reassembly_order_independent:
  assumes "fid < 4294967296" and "frs \<noteq> []" and "length frs < 65536"
    and "\<forall>part \<in> set frs. length part \<le> 60064"
    and "mset order = mset [0..<length frs]"
    and "vr (sender, fid) = None"
    and "filter (\<lambda>d. dgram_key d = Some (sender, fid)) (datagrams evs)
           = map (\<lambda>i. (sender, fragment_pkt fid (length frs) i (frs ! i))) order"
    and "in_window (sender, fid) None evs"
  shows "key_results (sender, fid) vr evs = replicate (length frs - 1) Stored @ [Completed (concat frs)]"
proof -
  have d: "distinct ([] @ order)"
    using assms(5) by (metis append_Nil distinct_upt mset_eq_imp_distinct_iff)
  have s: "set ([] @ order) = {0..<length frs}"
    using assms(5) by (metis append_Nil mset_eq_setD set_upt)
  have l: "length order = length frs"
    using assms(5) by (metis length_upt mset_eq_length minus_nat.diff_0)
  have ne: "order \<noteq> []" using l assms(2) by auto
  have b: "\<forall>part \<in> set frs. length part \<le> MAX_UDP_PAYLOAD + 64"
    using assms(4) by (simp add: MAX_UDP_PAYLOAD_def)
  have inv: "if ([]::nat list) = [] then vr (sender, fid) = None
     else vr (sender, fid) = Some (seen_entry frs [] 0) \<and> None = Some 0"
    using assms(6) by simp
  show ?thesis
    using run_permutation[where seen="[]" and rest=order and vr=vr and prev=None and ?t0.0=0,
        OF assms(1,3) b d s ne inv assms(7,8)] l by simp
qed

theorem reassembly_order_independent_witness:
  "mset [2, 0, 1] = mset [0..<length [[1, 2], [3, 4], [5 :: byte]]] \<and>
   in_window ((''10.0.0.1'', VInt 5000), 7) None
     [Datagram 0 (''10.0.0.1'', VInt 5000) (fragment_pkt 7 3 2 [5]),
      Sweep 1,
      Datagram 1 (''10.0.0.2'', VInt 6000) (fragment_pkt 7 3 0 [8]),
      Datagram (3 / 2) (''10.0.0.1'', VInt 5000) (fragment_pkt 7 3 0 [1, 2]),
      Sweep 2,
      Datagram 2 (''10.0.0.1'', VInt 5000) (fragment_pkt 9 1 0 [6]),
      Datagram (5 / 2) (''10.0.0.1'', VInt 5000) (fragment_pkt 7 3 1 [3, 4])] \<and>
   key_results ((''10.0.0.1'', VInt 5000), 7) Map.empty
     [Datagram 0 (''10.0.0.1'', VInt 5000) (fragment_pkt 7 3 2 [5]),
      Sweep 1,
      Datagram 1 (''10.0.0.2'', VInt 6000) (fragment_pkt 7 3 0 [8]),
      Datagram (3 / 2) (''10.0.0.1'', VInt 5000) (fragment_pkt 7 3 0 [1, 2]),
      Sweep 2,
      Datagram 2 (''10.0.0.1'', VInt 5000) (fragment_pkt 9 1 0 [6]),
      Datagram (5 / 2) (''10.0.0.1'', VInt 5000) (fragment_pkt 7 3 1 [3, 4])]
   = [Stored, Stored, Completed [1, 2, 3, 4, 5]]"
proof -
  let ?s = "(''10.0.0.1'', VInt 5000) :: addr"
  let ?b = "(''10.0.0.2'', VInt 6000) :: addr"
  let ?frs = "[[1, 2], [3, 4], [5 :: byte]]"
  let ?evs = "[Datagram 0 ?s (fragment_pkt 7 3 2 [5]),
      Sweep 1,
      Datagram 1 ?b (fragment_pkt 7 3 0 [8]),
      Datagram (3 / 2) ?s (fragment_pkt 7 3 0 [1, 2]),
      Sweep 2,
      Datagram 2 ?s (fragment_pkt 9 1 0 [6]),
      Datagram (5 / 2) ?s (fragment_pkt 7 3 1 [3, 4])]"
  have len: "length ?frs = 3" by simp
  have u: "[0..<3] = [0, 1, 2]"
    by (simp add: upt_rec)
  have m: "mset [2, 0, 1] = mset [0..<length ?frs]"
    unfolding len u by (simp add: add.commute)
  have k: "\<And>a f n i p. f < 4294967296 \<Longrightarrow> n < 65536 \<Longrightarrow> i < 65536 \<Longrightarrow>
      dgram_key (a, fragment_pkt f n i p) = Some (a, f)"
    by (rule dgram_key_fragment)
  have w: "in_window (?s, 7) None ?evs" by (simp add: k FRAME_TTL_def)
  have dg: "filter (\<lambda>d. dgram_key d = Some (?s, 7)) (datagrams ?evs)
      = map (\<lambda>i. (?s, fragment_pkt 7 (length ?frs) i (?frs ! i))) [2, 0, 1]"
    unfolding len by (simp add: k)
  have "key_results (?s, 7) Map.empty ?evs = replicate (length ?frs - 1) Stored @ [Completed (concat ?frs)]"
    by (rule reassembly_order_independent[OF _ _ _ _ m _ dg w]) simp_all
  then show ?thesis using m w by (simp add: numeral_3_eq_3)
qed

text \<open>
  Claim C10. A datagram whose fragment index is already stored in the buffer of its key
  overwrites the stored bytes and leaves the set of stored indices, hence the
  distinct-index count, unchanged. The completion test therefore gives the verdict it would
  have given before the duplicate: the datagram is merely stored unless the buffer already
  held \<open>total\<close> distinct indices.
\<close>

theorem duplicate_fragment_idempotent:
  assumes "VIDEO_HDR_SIZE \<le> length pkt"
    and "unpack_IHH (take VIDEO_HDR_SIZE pkt) = (fid, n, idx)"
    and "vr (sender, fid) = Some e"
    and "idx \<in> dom (parts e)"
  shows "dom ((parts e)(idx \<mapsto> drop VIDEO_HDR_SIZE pkt)) = dom (parts e) \<and>
         card (dom ((parts e)(idx \<mapsto> drop VIDEO_HDR_SIZE pkt))) = card (dom (parts e)) \<and>
         (snd (reassemble vr now sender pkt) = Stored \<longleftrightarrow> card (dom (parts e)) \<noteq> total e) \<and>
         (card (dom (parts e)) \<noteq> total e \<longrightarrow>
            fst (reassemble vr now sender pkt) =
              vr((sender, fid) \<mapsto> e\<lparr>parts := (parts e)(idx \<mapsto> drop VIDEO_HDR_SIZE pkt), ts := now\<rparr>))"
proof -
  have d: "dom ((parts e)(idx \<mapsto> drop VIDEO_HDR_SIZE pkt)) = dom (parts e)"
    using assms(4) by auto
  have ne: "\<not> (pkt = [] \<or> length pkt < VIDEO_HDR_SIZE)"
    using assms(1) by (auto simp: VIDEO_HDR_SIZE_def)
  show ?thesis
    unfolding reassemble_def using ne assms(2,3) d
    by (auto simp: Let_def split: sum.splits)
qed


theorem duplicate_fragment_idempotent_witness:
  "(0::nat) \<in> dom [0 \<mapsto> [1 :: byte]] \<and>
   snd (reassemble (Map.empty(((''10.0.0.1'', VInt 5000), 7) \<mapsto> \<lparr>parts = [0 \<mapsto> [1]], total = 2, ts = 0\<rparr>))
          1 (''10.0.0.1'', VInt 5000) (fragment_pkt 7 2 0 [9])) = Stored \<and>
   fst (reassemble (Map.empty(((''10.0.0.1'', VInt 5000), 7) \<mapsto> \<lparr>parts = [0 \<mapsto> [1]], total = 2, ts = 0\<rparr>))
          1 (''10.0.0.1'', VInt 5000) (fragment_pkt 7 2 0 [9]))
     = Map.empty(((''10.0.0.1'', VInt 5000), 7) \<mapsto> \<lparr>parts = [0 \<mapsto> [9]], total = 2, ts = 1\<rparr>)"
proof -
  let ?s = "(''10.0.0.1'', VInt 5000) :: addr"
  let ?e = "\<lparr>parts = [0 \<mapsto> [1 :: byte]], total = 2, ts = 0\<rparr>"
  let ?vr = "Map.empty((?s, 7 :: nat) \<mapsto> ?e)"
  let ?pkt = "fragment_pkt 7 2 0 [9]"
  have a1: "VIDEO_HDR_SIZE \<le> length ?pkt"
    by (simp add: length_fragment_pkt VIDEO_HDR_SIZE_def)
  have a2: "unpack_IHH (take VIDEO_HDR_SIZE ?pkt) = (7, 2, 0)"
    by (simp add: unpack_fragment_pkt)
  have a3: "?vr (?s, 7) = Some ?e" by simp
  have a4: "(0::nat) \<in> dom (parts ?e)" by simp
  show ?thesis
    using duplicate_fragment_idempotent[where vr="?vr" and sender="?s" and e="?e" and now=1, OF a1 a2 a3 a4]
    by (simp add: drop_fragment_pkt)
qed


text \<open>
  Claim C2, as stated, measures the two seconds from the creation of the buffer. The code
  refreshes the timestamp on every stored fragment (line 177), so a frame whose fragments
  trickle in keeps its buffer alive. Below, a buffer created at time 0 holds two of three
  indices after the sweeper passes at times 1, 2 and 3, and the payload is emitted at time 4.
\<close>

theorem slow_trickle_counterexample:
  "fst (run Map.empty
      [Datagram 0 (''10.0.0.1'', VInt 5000) (fragment_pkt 7 3 0 [1]),
       Sweep 1,
       Datagram 2 (''10.0.0.1'', VInt 5000) (fragment_pkt 7 3 1 [2]),
       Sweep 2,
       Sweep 3]) ((''10.0.0.1'', VInt 5000), 7)
     = Some \<lparr>parts = [0 \<mapsto> [1], 1 \<mapsto> [2]], total = 3, ts = 2\<rparr> \<and>
   snd (run Map.empty
      [Datagram 0 (''10.0.0.1'', VInt 5000) (fragment_pkt 7 3 0 [1]),
       Sweep 1,
       Datagram 2 (''10.0.0.1'', VInt 5000) (fragment_pkt 7 3 1 [2]),
       Sweep 2,
       Sweep 3,
       Datagram 4 (''10.0.0.1'', VInt 5000) (fragment_pkt 7 3 2 [3]),
       Sweep 4])
     = [Stored, Stored, Completed [1, 2, 3]]"
proof -
  let ?s = "(''10.0.0.1'', VInt 5000) :: addr"
  have h0: "unpack_IHH (take VIDEO_HDR_SIZE (fragment_pkt 7 3 0 [1])) = (7, 3, 0)"
    by (simp add: unpack_fragment_pkt)
  have h1: "unpack_IHH (take VIDEO_HDR_SIZE (fragment_pkt 7 3 (Suc 0) [2])) = (7, 3, Suc 0)"
    by (simp add: unpack_fragment_pkt)
  have h2: "unpack_IHH (take VIDEO_HDR_SIZE (fragment_pkt 7 3 2 [3])) = (7, 3, 2)"
    by (simp add: unpack_fragment_pkt)
  have l: "\<And>i p. \<not> (fragment_pkt 7 3 i [p] = [] \<or> length (fragment_pkt 7 3 i [p]) < VIDEO_HDR_SIZE)"
    by (simp add: fragment_pkt_def u32_be_def u16_be_def VIDEO_HDR_SIZE_def)
  have u: "[0..<3] = [0, 1, 2]" by (simp add: upt_rec)
  have rf: "\<And>i p. recvfrom (MAX_UDP_PAYLOAD + VIDEO_HDR_SIZE + 64) (fragment_pkt 7 3 i [p]) = fragment_pkt 7 3 i [p]"
    by (simp add: recvfrom_def length_fragment_pkt MAX_UDP_PAYLOAD_def)
  have r0: "reassemble Map.empty 0 ?s (fragment_pkt 7 3 0 [1]) =
     ([(?s, 7) \<mapsto> \<lparr>parts = [0 \<mapsto> [1]], total = 3, ts = 0\<rparr>], Stored)"
    unfolding reassemble_def using l by (simp add: h0 drop_fragment_pkt)
  have c1: "cleanup_old_reassembly [(?s, 7) \<mapsto> \<lparr>parts = [0 \<mapsto> [1]], total = 3, ts = 0\<rparr>] 1
         = [(?s, 7) \<mapsto> \<lparr>parts = [0 \<mapsto> [1]], total = 3, ts = 0\<rparr>]"
    by (auto simp: cleanup_old_reassembly_def FRAME_TTL_def fun_eq_iff)
  have r1: "reassemble [(?s, 7) \<mapsto> \<lparr>parts = [0 \<mapsto> [1]], total = 3, ts = 0\<rparr>] 2 ?s (fragment_pkt 7 3 (Suc 0) [2]) =
     ([(?s, 7) \<mapsto> \<lparr>parts = [0 \<mapsto> [1], Suc 0 \<mapsto> [2]], total = 3, ts = 2\<rparr>], Stored)"
    unfolding reassemble_def using l by (simp add: h1 drop_fragment_pkt)
  have c2: "\<And>t. t \<le> 4 \<Longrightarrow> cleanup_old_reassembly [(?s, 7) \<mapsto> \<lparr>parts = [0 \<mapsto> [1], Suc 0 \<mapsto> [2]], total = 3, ts = 2\<rparr>] t
         = [(?s, 7) \<mapsto> \<lparr>parts = [0 \<mapsto> [1], Suc 0 \<mapsto> [2]], total = 3, ts = 2\<rparr>]"
    by (auto simp: cleanup_old_reassembly_def FRAME_TTL_def fun_eq_iff)
  have r2: "reassemble [(?s, 7) \<mapsto> \<lparr>parts = [0 \<mapsto> [1], Suc 0 \<mapsto> [2]], total = 3, ts = 2\<rparr>] 4 ?s (fragment_pkt 7 3 2 [3]) =
     (Map.empty, Completed [1, 2, 3])"
    unfolding reassemble_def using l by (simp add: h2 drop_fragment_pkt u)
  show ?thesis
    by (simp add: rf r0 c1 r1 c2 r2)
qed

text \<open>
  Claim C2, amended. The TTL runs from the last stored fragment. A sweeper pass at clock
  reading \<open>now\<close> deletes every buffer whose last-touched timestamp is more than
  \<open>FRAME_TTL\<close> (two seconds) older than \<open>now\<close>, complete or not, keeps every other
  buffer as it is, and emits nothing. The fragments of a deleted buffer are gone: the next
  datagram for the key is handled as on an empty table.
\<close>

theorem sweeper_deletes_stale_buffers:
  assumes "vr (sender, fid) = Some e" and "now - ts e > FRAME_TTL"
    and "unpack_IHH (take VIDEO_HDR_SIZE pkt) = (fid, n, idx)"
  shows "cleanup_old_reassembly vr now (sender, fid) = None \<and>
         run vr [Sweep now] = (cleanup_old_reassembly vr now, []) \<and>
         (\<forall>k e'. vr k = Some e' \<and> \<not> (now - ts e' > FRAME_TTL) \<longrightarrow>
                 cleanup_old_reassembly vr now k = Some e') \<and>
         (\<forall>k. vr k = None \<longrightarrow> cleanup_old_reassembly vr now k = None) \<and>
         snd (reassemble (cleanup_old_reassembly vr now) t sender pkt)
           = snd (reassemble Map.empty t sender pkt) \<and>
         fst (reassemble (cleanup_old_reassembly vr now) t sender pkt) (sender, fid)
           = fst (reassemble Map.empty t sender pkt) (sender, fid)"
proof -
  have 1: "cleanup_old_reassembly vr now (sender, fid) = None"
    using assms(1,2) by (simp add: cleanup_old_reassembly_def)
  have 2: "snd (reassemble (cleanup_old_reassembly vr now) t sender pkt)
           = snd (reassemble Map.empty t sender pkt)"
    unfolding reassemble_def using 1 assms(3)
    by (simp add: Let_def split: sum.splits)
  have 3: "fst (reassemble (cleanup_old_reassembly vr now) t sender pkt) (sender, fid)
           = fst (reassemble Map.empty t sender pkt) (sender, fid)"
    unfolding reassemble_def using 1 assms(3)
    by (simp add: Let_def split: sum.splits)
  show ?thesis using 1 2 3 by (simp add: cleanup_old_reassembly_def)
qed


theorem sweeper_deletes_stale_buffers_witness:
  "(3::real) - ts \<lparr>parts = [0 \<mapsto> [1 :: byte]], total = 2, ts = 0\<rparr> > FRAME_TTL \<and>
   cleanup_old_reassembly
     [((''10.0.0.1'', VInt 5000), 7) \<mapsto> \<lparr>parts = [0 \<mapsto> [1]], total = 2, ts = 0\<rparr>] 3
     ((''10.0.0.1'', VInt 5000), 7) = None \<and>
   snd (reassemble
     (cleanup_old_reassembly
        [((''10.0.0.1'', VInt 5000), 7) \<mapsto> \<lparr>parts = [0 \<mapsto> [1]], total = 2, ts = 0\<rparr>] 3)
     4 (''10.0.0.1'', VInt 5000) (fragment_pkt 7 2 1 [2])) = Stored"
proof -
  let ?s = "(''10.0.0.1'', VInt 5000) :: addr"
  let ?e = "\<lparr>parts = [0 \<mapsto> [1 :: byte]], total = 2, ts = 0\<rparr>"
  let ?vr = "[(?s, 7 :: nat) \<mapsto> ?e]"
  let ?pkt = "fragment_pkt 7 2 1 [2]"
  have a1: "?vr (?s, 7) = Some ?e" by simp
  have a2: "3 - ts ?e > FRAME_TTL" by (simp add: FRAME_TTL_def)
  have a3: "unpack_IHH (take VIDEO_HDR_SIZE ?pkt) = (7, 2, 1)"
    by (simp add: unpack_fragment_pkt)
  have l: "\<not> (?pkt = [] \<or> length ?pkt < VIDEO_HDR_SIZE)"
    by (simp add: fragment_pkt_def u32_be_def u16_be_def VIDEO_HDR_SIZE_def)
  have r: "snd (reassemble Map.empty 4 ?s ?pkt) = Stored"
    unfolding reassemble_def using l a3 by (simp add: drop_fragment_pkt)
  show ?thesis
    using sweeper_deletes_stale_buffers[where vr="?vr" and sender="?s" and e="?e" and now=3
        and pkt="?pkt" and t=4, OF a1 a2 a3] a2 r
    by simp
qed


section \<open>Properties of the video relay\<close>

lemma concat_chunks_take:
  "concat (map (\<lambda>i. take m (drop (i * m) xs)) [0..<n]) = take (n * m) xs"
proof (induction n)
  case 0 show ?case by simp
next
  case (Suc n)
  have "Suc n * m = n * m + m" by simp
  then have "take (Suc n * m) xs = take (n * m) xs @ take m (drop (n * m) xs)"
    by (simp only: take_add)
  with Suc show ?case by simp
qed

lemma send_fragments_ok:
  "fid < 4294967296 \<Longrightarrow> tot < 65536 \<Longrightarrow> set is \<subseteq> {..<65536} \<Longrightarrow>
   send_fragments pb fid tot is =
     (map (\<lambda>idx. u32_be fid @ u16_be tot @ u16_be idx @ take MAX_UDP_PAYLOAD (drop (idx * MAX_UDP_PAYLOAD) pb)) is, None)"
  by (induction "is") (auto simp: pack_IHH_def Let_def)

lemma frame_id_out_bound: "frame_id_out t < 4294967296"
proof -
  have "\<And>z::int. nat (z mod 4294967296) < 4294967296"
    by (simp add: nat_less_iff)
  then show ?thesis unfolding frame_id_out_def by blast
qed

lemma refragment_cases:
  "refragment pb t =
     (if (length pb + MAX_UDP_PAYLOAD - 1) div MAX_UDP_PAYLOAD < 65536
      then (map (\<lambda>idx. u32_be (frame_id_out t) @ u16_be ((length pb + MAX_UDP_PAYLOAD - 1) div MAX_UDP_PAYLOAD)
                      @ u16_be idx @ take MAX_UDP_PAYLOAD (drop (idx * MAX_UDP_PAYLOAD) pb))
              [0..<(length pb + MAX_UDP_PAYLOAD - 1) div MAX_UDP_PAYLOAD], None)
      else ([], Some StructError))"
proof (cases "(length pb + MAX_UDP_PAYLOAD - 1) div MAX_UDP_PAYLOAD < 65536")
  case True
  have "set [0..<(length pb + MAX_UDP_PAYLOAD - 1) div MAX_UDP_PAYLOAD] \<subseteq> {..<65536}"
    using True by auto
  from send_fragments_ok[where pb=pb, OF frame_id_out_bound[of t] True this] True
  show ?thesis
    unfolding refragment_def Let_def by simp
next
  case False
  let ?tot = "(length pb + MAX_UDP_PAYLOAD - 1) div MAX_UDP_PAYLOAD"
  have "0 < ?tot" using False by simp
  then have "[0..<?tot] = 0 # [Suc 0..<?tot]" by (simp add: upt_conv_Cons)
  then show ?thesis
    unfolding refragment_def Let_def using False
    by (simp add: pack_IHH_def)
qed

lemma chunks_cover:
  "take ((length pb + MAX_UDP_PAYLOAD - 1) div MAX_UDP_PAYLOAD * MAX_UDP_PAYLOAD) pb = pb"
proof -
  have "(length pb + 59999) mod 60000 < 60000" by simp
  moreover have "(length pb + 59999) div 60000 * 60000 + (length pb + 59999) mod 60000 = length pb + 59999"
    by (rule div_mult_mod_eq)
  ultimately have "length pb \<le> (length pb + 59999) div 60000 * 60000"
    by linarith
  then show ?thesis by (simp add: MAX_UDP_PAYLOAD_def)
qed

lemma refragment_datagram:
  assumes "d \<in> set (fst (refragment pb ms))"
  shows "\<exists>i < (length pb + MAX_UDP_PAYLOAD - 1) div MAX_UDP_PAYLOAD.
           d = fragment_pkt (frame_id_out ms) ((length pb + MAX_UDP_PAYLOAD - 1) div MAX_UDP_PAYLOAD) i
                 (take MAX_UDP_PAYLOAD (drop (i * MAX_UDP_PAYLOAD) pb)) \<and>
           (length pb + MAX_UDP_PAYLOAD - 1) div MAX_UDP_PAYLOAD < 65536"
  using assms by (auto simp: refragment_cases fragment_pkt_def split: if_splits)

lemma forward_peers_datagram:
  "(p, d) \<in> set (fst (forward_peers pb clock sender ps)) \<Longrightarrow> d \<in> set (fst (refragment pb (clock p)))"
proof (induction ps)
  case Nil
  then show ?case by simp
next
  case (Cons q ps)
  obtain ds r where rf: "refragment pb (clock q) = (ds, r)"
    by (cases "refragment pb (clock q)") auto
  obtain out r' where fp: "forward_peers pb clock sender ps = (out, r')"
    by (cases "forward_peers pb clock sender ps") auto
  from Cons rf fp show ?case
    by (cases r) (auto split: if_splits)
qed

lemma relay_datagram:
  "(p, d) \<in> set (fst (relay reg clock sender pb)) \<Longrightarrow> d \<in> set (fst (refragment pb (clock p)))"
  by (auto simp: relay_def Let_def split: if_splits dest: forward_peers_datagram)

lemma listener_relays:
  "video_udp_listener reg vr now clock sender dgram = (vr1, Completed pb, out, r) \<Longrightarrow>
   (out, r) = relay reg clock sender pb"
  by (auto simp: video_udp_listener_def split: prod.splits reasm_result.splits)

text \<open>
  Claim C7, as stated, has the outbound frame id differ from the inbound one. The outbound
  id is computed from the clock without regard to the inbound id, so the two coincide
  whenever the sender's id equals the low 32 bits of the millisecond clock: here a frame
  that arrives with id 2000 leaves with id 2000. The client's screen loop seeds its frame ids
  from the same millisecond clock (client line 359).
\<close>

theorem frame_id_coincides_counterexample:
  "video_udp_listener room1 Map.empty 0 (\<lambda>p. 2000) (''10.0.0.1'', VInt 5000)
      (fragment_pkt 2000 1 0 [1, 2, 3])
   = (Map.empty, Completed [1, 2, 3],
      [((''10.0.0.2'', VInt 6000), fragment_pkt 2000 1 0 [1, 2, 3])], None)"
proof -
  let ?s = "(''10.0.0.1'', VInt 5000) :: addr"
  let ?pkt = "fragment_pkt 2000 1 0 [1, 2, 3]"
  have rf: "recvfrom (MAX_UDP_PAYLOAD + VIDEO_HDR_SIZE + 64) ?pkt = ?pkt"
    by (simp add: recvfrom_def length_fragment_pkt)
  have h: "unpack_IHH (take VIDEO_HDR_SIZE (fragment_pkt 2000 (Suc 0) 0 [1, 2, 3])) = (2000, Suc 0, 0)"
    by (simp add: unpack_fragment_pkt)
  have l: "\<not> (fragment_pkt 2000 (Suc 0) 0 [1, 2, 3] = [] \<or> length (fragment_pkt 2000 (Suc 0) 0 [1, 2, 3]) < VIDEO_HDR_SIZE)"
    by (simp add: fragment_pkt_def u32_be_def u16_be_def VIDEO_HDR_SIZE_def)
  have ra: "reassemble Map.empty 0 ?s ?pkt = (Map.empty, Completed [1, 2, 3])"
    unfolding reassemble_def using l by (simp add: h drop_fragment_pkt)
  have lk: "lookup_meeting room1 ?s = VStr ''Room1''"
    by (simp add: lookup_meeting_def room1_def)
  have f: "frame_id_out 2000 = 2000" by (simp add: frame_id_out_def)
  have tot: "(length [1, 2, 3 :: byte] + MAX_UDP_PAYLOAD - 1) div MAX_UDP_PAYLOAD = 1"
    by (simp add: MAX_UDP_PAYLOAD_def)
  have r: "refragment [1, 2, 3] 2000 = ([fragment_pkt 2000 1 0 [1, 2, 3]], None)"
    unfolding refragment_cases tot f by (simp add: fragment_pkt_def MAX_UDP_PAYLOAD_def)
  have rl: "relay room1 (\<lambda>p. 2000) ?s [1, 2, 3]
     = ([((''10.0.0.2'', VInt 6000), fragment_pkt 2000 1 0 [1, 2, 3])], None)"
    by (simp add: relay_def lk r) (simp add: room1_def r)
  show ?thesis
    unfolding video_udp_listener_def rf ra by (simp add: rl)
qed

text \<open>
  Claim C7, amended: the outbound frame id is taken from the clock alone and may coincide
  with the inbound one. When a reconstructed payload is forwarded to a peer, the payloads of
  the outbound datagrams, concatenated in index order, are the reconstructed bytes: datagram
  \<open>i\<close> of \<open>\<lceil>length / 60000\<rceil>\<close> carries the slice of at most 60000 bytes at offset
  \<open>60000 * i\<close> behind an eight-byte header holding the frame id, the count and \<open>i\<close>. The
  frame id is the millisecond clock value truncated to an integer, modulo \<open>2\<^sup>3\<^sup>2\<close>.
  Whatever inbound datagram completed the payload, every datagram that the listener sends to
  a peer is one of this re-fragmentation under the clock value taken for that peer.
\<close>

theorem refragment_preserves_bytes:
  assumes "refragment pb ms = (ds, None)"
  shows "concat (map (drop 8) ds) = pb \<and>
         length ds = (length pb + 59999) div 60000 \<and>
         (\<forall>i<length ds.
            unpack_IHH (take 8 (ds ! i)) = (frame_id_out ms, length ds, i) \<and>
            drop 8 (ds ! i) = take 60000 (drop (i * 60000) pb)) \<and>
         int (frame_id_out ms) = (if 0 \<le> ms then \<lfloor>ms\<rfloor> else \<lceil>ms\<rceil>) mod 4294967296 \<and>
         (\<forall>reg vr now clock sender dgram vr1 out r p d.
            video_udp_listener reg vr now clock sender dgram = (vr1, Completed pb, out, r) \<and>
            (p, d) \<in> set out \<longrightarrow>
              d \<in> set (fst (refragment pb (clock p))) \<and>
              fst (unpack_IHH (take 8 d)) = frame_id_out (clock p))"
proof -
  let ?tot = "(length pb + MAX_UDP_PAYLOAD - 1) div MAX_UDP_PAYLOAD"
  let ?mk = "\<lambda>idx. fragment_pkt (frame_id_out ms) ?tot idx (take MAX_UDP_PAYLOAD (drop (idx * MAX_UDP_PAYLOAD) pb))"
  from assms have tot: "?tot < 65536" and ds: "ds = map ?mk [0..<?tot]"
    by (auto simp: refragment_cases fragment_pkt_def split: if_splits)
  have "concat (map (drop VIDEO_HDR_SIZE) ds) =
        concat (map (\<lambda>i. take MAX_UDP_PAYLOAD (drop (i * MAX_UDP_PAYLOAD) pb)) [0..<?tot])"
    unfolding ds by (simp add: comp_def drop_fragment_pkt)
  also have "\<dots> = pb" by (simp only: concat_chunks_take chunks_cover)
  finally have 1: "concat (map (drop 8) ds) = pb" by (simp add: VIDEO_HDR_SIZE_def)
  have 2: "length ds = ?tot" unfolding ds by simp
  have 3: "unpack_IHH (take 8 (ds ! i)) = (frame_id_out ms, length ds, i) \<and>
           drop 8 (ds ! i) = take 60000 (drop (i * 60000) pb)"
    if "i < length ds" for i
  proof -
    have i: "i < ?tot" using that 2 by simp
    then have "ds ! i = ?mk i" unfolding ds by simp
    moreover have "i < 65536" using i tot by simp
    ultimately have "unpack_IHH (take VIDEO_HDR_SIZE (ds ! i)) = (frame_id_out ms, length ds, i) \<and>
           drop VIDEO_HDR_SIZE (ds ! i) = take MAX_UDP_PAYLOAD (drop (i * MAX_UDP_PAYLOAD) pb)"
      using tot 2 by (simp add: unpack_fragment_pkt drop_fragment_pkt frame_id_out_bound)
    then show ?thesis by (simp add: VIDEO_HDR_SIZE_def MAX_UDP_PAYLOAD_def)
  qed
  have 4: "int (frame_id_out ms) = (if 0 \<le> ms then \<lfloor>ms\<rfloor> else \<lceil>ms\<rceil>) mod 4294967296"
    by (simp add: frame_id_out_def)
  have 5: "d \<in> set (fst (refragment pb (clock p))) \<and>
           fst (unpack_IHH (take 8 d)) = frame_id_out (clock p)"
    if l: "video_udp_listener reg vr now clock sender dgram = (vr1, Completed pb, out, r)"
      and m: "(p, d) \<in> set out"
    for reg vr now clock sender dgram vr1 out r p d
  proof -
    from listener_relays[OF l] m have "(p, d) \<in> set (fst (relay reg clock sender pb))"
      by (metis fst_conv)
    then have a: "d \<in> set (fst (refragment pb (clock p)))" by (rule relay_datagram)
    from refragment_datagram[OF a] obtain i where
      "i < ?tot" "?tot < 65536" "d = fragment_pkt (frame_id_out (clock p)) ?tot i
                 (take MAX_UDP_PAYLOAD (drop (i * MAX_UDP_PAYLOAD) pb))"
      by blast
    then have "unpack_IHH (take VIDEO_HDR_SIZE d) = (frame_id_out (clock p), ?tot, i)"
      by (simp add: unpack_fragment_pkt frame_id_out_bound)
    with a show ?thesis by (simp add: VIDEO_HDR_SIZE_def)
  qed
  have two: "length ds = (length pb + 59999) div 60000"
    using 2 by (simp add: MAX_UDP_PAYLOAD_def)
  show ?thesis using 1 two 3 4 5 by blast
qed

theorem refragment_preserves_bytes_witness:
  "refragment (replicate 60001 7) (4001 / 2)
     = ([fragment_pkt 2000 2 0 (replicate 60000 7), fragment_pkt 2000 2 1 [7]], None) \<and>
   concat (map (drop 8) [fragment_pkt 2000 2 0 (replicate 60000 7), fragment_pkt 2000 2 1 [7]])
     = replicate 60001 7 \<and>
   unpack_IHH (take 8 (fragment_pkt 2000 2 1 [7])) = (frame_id_out (4001 / 2), 2, 1) \<and>
   int (frame_id_out (4001 / 2)) = 2000"
proof -
  let ?ds = "[fragment_pkt 2000 2 0 (replicate 60000 7), fragment_pkt 2000 2 1 [7]]"
  have f: "frame_id_out (4001 / 2) = 2000" by (simp add: frame_id_out_def)
  have tot: "(length (replicate 60001 (7 :: byte)) + MAX_UDP_PAYLOAD - 1) div MAX_UDP_PAYLOAD = 2"
    by (simp add: MAX_UDP_PAYLOAD_def)
  have u: "[0..<2] = [0, 1]" by (simp add: upt_rec)
  have d: "drop 60000 (replicate 60001 (7 :: byte)) = [7]" by simp
  have r: "refragment (replicate 60001 7) (4001 / 2) = (?ds, None)"
    unfolding refragment_cases tot f u by (simp add: fragment_pkt_def MAX_UDP_PAYLOAD_def d)
  have n: "?ds ! 1 = fragment_pkt 2000 2 1 [7]" by simp
  from refragment_preserves_bytes[OF r] have
    a: "concat (map (drop 8) ?ds) = replicate 60001 7"
    and b: "\<forall>i<length ?ds. unpack_IHH (take 8 (?ds ! i)) = (frame_id_out (4001 / 2), length ?ds, i) \<and>
            drop 8 (?ds ! i) = take 60000 (drop (i * 60000) (replicate 60001 7))"
    and c: "int (frame_id_out (4001 / 2)) = (if (0::real) \<le> 4001 / 2 then \<lfloor>4001 / 2 :: real\<rfloor> else \<lceil>4001 / 2 :: real\<rceil>) mod 4294967296"
    by blast+
  have b1: "unpack_IHH (take 8 (fragment_pkt 2000 2 1 [7])) = (frame_id_out (4001 / 2), 2, 1)"
    using b[rule_format, of 1] by simp
  from c have c1: "int (frame_id_out (4001 / 2)) = 2000" by simp
  show ?thesis using r a b1 c1 by blast
qed

lemma forward_peers_ok:
  assumes "(length pb + MAX_UDP_PAYLOAD - 1) div MAX_UDP_PAYLOAD < 65536"
  shows "forward_peers pb clock sender ps =
     (concat (map (\<lambda>p. map (Pair p) (fst (refragment pb (clock p)))) (filter (\<lambda>p. p \<noteq> sender) ps)), None)"
proof (induction ps)
  case Nil
  show ?case by simp
next
  case (Cons p ps)
  have "snd (refragment pb (clock p)) = None"
    using assms by (simp add: refragment_cases)
  then obtain ds where "refragment pb (clock p) = (ds, None)"
    by (cases "refragment pb (clock p)") auto
  with Cons show ?case by simp
qed

lemma filter_concat_by_dest:
  "distinct qs \<Longrightarrow>
   filter (\<lambda>d. fst d = p) (concat (map (\<lambda>q. map (Pair q) (f q)) qs)) =
     (if p \<in> set qs then map (Pair p) (f p) else [])"
proof (induction qs)
  case Nil
  show ?case by simp
next
  case (Cons q qs)
  have 1: "filter (\<lambda>d. fst d = p) (map (Pair q) (f q)) = (if q = p then map (Pair q) (f q) else [])"
    by (induction "f q") (auto simp: filter_map comp_def)
  from Cons show ?case by (auto simp: 1)
qed

lemma payload_bound_total:
  "length pb \<le> 65535 * MAX_UDP_PAYLOAD \<Longrightarrow> (length pb + MAX_UDP_PAYLOAD - 1) div MAX_UDP_PAYLOAD < 65536"
proof -
  assume "length pb \<le> 65535 * MAX_UDP_PAYLOAD"
  then have "length pb + 59999 < 65536 * 60000" by (simp add: MAX_UDP_PAYLOAD_def)
  then have "(length pb + 59999) div 60000 < 65536"
    by (simp add: less_mult_imp_div_less)
  then show ?thesis by (simp add: MAX_UDP_PAYLOAD_def)
qed

text \<open>
  Claim C8, as stated, covers every reconstructed payload. The total field of the outbound
  header is 16 bits wide: a payload that needs more than 65535 fragments makes
  \<^verbatim>\<open>struct.pack\<close> raise at the first fragment of the first peer, and nothing is sent
  although the meeting resolves and another video address is registered. (The listener can
  reconstruct up to 65535 fragments of 60064 bytes, which exceeds 65535 times 60000.)
\<close>

theorem oversized_payload_counterexample:
  "lookup_meeting room1 (''10.0.0.1'', VInt 5000) = VStr ''Room1'' \<and>
   map_of (meet_video_addrs room1) (VStr ''Room1'') = Some [(''10.0.0.2'', VInt 6000), (''10.0.0.1'', VInt 5000)] \<and>
   relay room1 (\<lambda>p. 0) (''10.0.0.1'', VInt 5000) (replicate 3932100001 0) = ([], Some StructError)"
proof -
  have r: "refragment (replicate 3932100001 0) 0 = ([], Some StructError)"
    by (simp add: refragment_cases MAX_UDP_PAYLOAD_def)
  have l: "lookup_meeting room1 (''10.0.0.1'', VInt 5000) = VStr ''Room1''"
    by (simp add: lookup_meeting_def room1_def)
  show ?thesis
    by (simp add: relay_def l r) (simp add: room1_def r)
qed

text \<open>
  Claim C8, amended to payloads of at most \<open>65535 * MAX_UDP_PAYLOAD\<close> bytes. The meeting
  is the exact entry of \<^verbatim>\<open>udp_to_meet\<close> when that is a truthy meeting id, otherwise the
  first meeting, in insertion order, holding a video address on the sender's IP. When no
  truthy meeting results, nothing is sent. Otherwise every address of that meeting's video
  set other than the sender's exact address receives exactly the re-fragmented payload, and
  every other address (outside the meeting, or the sender's own) receives nothing.
\<close>

theorem relay_to_meeting_peers:
  assumes "length pb \<le> 65535 * MAX_UDP_PAYLOAD"
  shows
    "(\<forall>m. udp_to_meet reg sender = Some m \<and> truthy m \<longrightarrow> lookup_meeting reg sender = m) \<and>
     ((\<forall>m. udp_to_meet reg sender = Some m \<longrightarrow> \<not> truthy m) \<longrightarrow>
        lookup_meeting reg sender =
          (case find (\<lambda>(mid, addrs). list_ex (\<lambda>a. fst a = fst sender) addrs) (meet_video_addrs reg) of
             None \<Rightarrow> (case udp_to_meet reg sender of None \<Rightarrow> VNone | Some m \<Rightarrow> m)
           | Some (mid, addrs) \<Rightarrow> mid)) \<and>
     (\<not> truthy (lookup_meeting reg sender) \<longrightarrow> relay reg clock sender pb = ([], None)) \<and>
     (truthy (lookup_meeting reg sender) \<longrightarrow>
        snd (relay reg clock sender pb) = None \<and>
        (\<forall>p. map snd (filter (\<lambda>d. fst d = p) (fst (relay reg clock sender pb))) =
           (if p \<noteq> sender \<and>
               p \<in> set (case map_of (meet_video_addrs reg) (lookup_meeting reg sender) of
                          None \<Rightarrow> [] | Some s \<Rightarrow> s)
            then fst (refragment pb (clock p)) else [])))"
proof -
  have a: "\<forall>m. udp_to_meet reg sender = Some m \<and> truthy m \<longrightarrow> lookup_meeting reg sender = m"
    by (auto simp: lookup_meeting_def)
  have b: "(\<forall>m. udp_to_meet reg sender = Some m \<longrightarrow> \<not> truthy m) \<longrightarrow>
        lookup_meeting reg sender =
          (case find (\<lambda>(mid, addrs). list_ex (\<lambda>a. fst a = fst sender) addrs) (meet_video_addrs reg) of
             None \<Rightarrow> (case udp_to_meet reg sender of None \<Rightarrow> VNone | Some m \<Rightarrow> m)
           | Some (mid, addrs) \<Rightarrow> mid)"
    by (auto simp: lookup_meeting_def split: option.splits)
  have c: "\<not> truthy (lookup_meeting reg sender) \<longrightarrow> relay reg clock sender pb = ([], None)"
    by (simp add: relay_def)
  let ?peers = "case map_of (meet_video_addrs reg) (lookup_meeting reg sender) of None \<Rightarrow> [] | Some s \<Rightarrow> s"
  let ?f = "\<lambda>p. fst (refragment pb (clock p))"
  have r: "truthy (lookup_meeting reg sender) \<Longrightarrow> relay reg clock sender pb =
      (concat (map (\<lambda>p. map (Pair p) (?f p)) (filter (\<lambda>p. p \<noteq> sender) (remdups ?peers))), None)"
    using forward_peers_ok[OF payload_bound_total[OF assms]]
    by (simp add: relay_def Let_def)
  have d: "map snd (filter (\<lambda>d. fst d = p) (fst (relay reg clock sender pb))) =
           (if p \<noteq> sender \<and> p \<in> set ?peers then ?f p else [])"
    if t: "truthy (lookup_meeting reg sender)" for p
  proof -
    have "distinct (filter (\<lambda>p. p \<noteq> sender) (remdups ?peers))" by simp
    from filter_concat_by_dest[OF this, of p ?f]
    show ?thesis unfolding r[OF t] by (auto simp: comp_def)
  qed
  show ?thesis using a b c d r by simp
qed

theorem relay_to_meeting_peers_witness:
  "length [1, 2, 3 :: byte] \<le> 65535 * MAX_UDP_PAYLOAD \<and>
   truthy (lookup_meeting room1 (''10.0.0.1'', VInt 5000)) \<and>
   relay room1 (\<lambda>p. 2000) (''10.0.0.1'', VInt 5000) [1, 2, 3]
     = ([((''10.0.0.2'', VInt 6000), fragment_pkt 2000 1 0 [1, 2, 3])], None) \<and>
   map snd (filter (\<lambda>d. fst d = (''10.0.0.2'', VInt 6000))
        (fst (relay room1 (\<lambda>p. 2000) (''10.0.0.1'', VInt 5000) [1, 2, 3])))
     = fst (refragment [1, 2, 3] 2000) \<and>
   map snd (filter (\<lambda>d. fst d = (''10.0.0.1'', VInt 5000))
        (fst (relay room1 (\<lambda>p. 2000) (''10.0.0.1'', VInt 5000) [1, 2, 3])))
     = []"
proof -
  have b: "length [1, 2, 3 :: byte] \<le> 65535 * MAX_UDP_PAYLOAD"
    by (simp add: MAX_UDP_PAYLOAD_def)
  have l: "lookup_meeting room1 (''10.0.0.1'', VInt 5000) = VStr ''Room1''"
    by (simp add: lookup_meeting_def room1_def)
  have f: "frame_id_out 2000 = 2000" by (simp add: frame_id_out_def)
  have tot: "(length [1, 2, 3 :: byte] + MAX_UDP_PAYLOAD - 1) div MAX_UDP_PAYLOAD = 1"
    by (simp add: MAX_UDP_PAYLOAD_def)
  have r: "refragment [1, 2, 3] 2000 = ([fragment_pkt 2000 1 0 [1, 2, 3]], None)"
    unfolding refragment_cases tot f by (simp add: fragment_pkt_def MAX_UDP_PAYLOAD_def)
  have rl: "relay room1 (\<lambda>p. 2000) (''10.0.0.1'', VInt 5000) [1, 2, 3]
     = ([((''10.0.0.2'', VInt 6000), fragment_pkt 2000 1 0 [1, 2, 3])], None)"
    by (simp add: relay_def l r) (simp add: room1_def r)
  have m: "map_of (meet_video_addrs room1) (VStr ''Room1'') = Some [(''10.0.0.2'', VInt 6000), (''10.0.0.1'', VInt 5000)]"
    by (simp add: room1_def)
  from relay_to_meeting_peers[OF b, of room1 "(''10.0.0.1'', VInt 5000)" "\<lambda>p. 2"]
  show ?thesis using b l rl by (simp add: r)
qed

section \<open>Properties of the audio relay\<close>

text \<open>
  Claim C9, as stated, confines the audio packet to one meeting. The loop of
  \<^verbatim>\<open>audio_udp_listener\<close> has no \<^verbatim>\<open>break\<close>: it serves every meeting whose audio set holds an
  address on the sender's IP. A sender of Room1 on host \<^verbatim>\<open>10.0.0.1\<close> reaches both audio
  addresses of Room2, where another participant uses the same host.
\<close>

theorem audio_crosses_meetings_counterexample:
  "audio_udp_listener two_rooms (''10.0.0.1'', VInt 5001) [9] =
     [((''10.0.0.2'', VInt 6001), [9]),
      ((''10.0.0.3'', VInt 7001), [9]),
      ((''10.0.0.1'', VInt 5003), [9])]"
  by (simp add: audio_udp_listener_def two_rooms_def)

text \<open>
  Claim C9, amended. A non-empty audio datagram is forwarded byte-identically to every
  registered audio address other than the sender's exact address in every meeting whose
  audio set holds an address on the sender's IP (ports ignored), and to no address of a
  meeting without such an address. An empty datagram is dropped.
\<close>

theorem audio_forwarded_by_ip:
  assumes "pkt \<noteq> []"
  shows "set (audio_udp_listener reg sender pkt) =
           {(p, pkt) | p. p \<noteq> sender \<and>
              (\<exists>mid addrs. (mid, addrs) \<in> set (meet_audio_addrs reg) \<and>
                 (\<exists>a \<in> set addrs. fst a = fst sender) \<and> p \<in> set addrs)} \<and>
         audio_udp_listener reg sender [] = []"
proof -
  let ?hit = "\<lambda>addrs. \<exists>a \<in> set addrs. fst a = fst sender"
  let ?item = "\<lambda>x. case x of (mid, addrs) \<Rightarrow>
               if list_ex (\<lambda>a. fst a = fst sender) addrs
               then map (\<lambda>peer. (peer, pkt)) (filter (\<lambda>peer. peer \<noteq> sender) (remdups addrs))
               else []"
  have A: "set (audio_udp_listener reg sender pkt) = (\<Union>x \<in> set (meet_audio_addrs reg). set (?item x))"
    using assms by (simp add: audio_udp_listener_def)
  have B: "set (?item x) = (if ?hit (snd x) then {(p, pkt) | p. p \<in> set (snd x) \<and> p \<noteq> sender} else {})"
    for x :: "pyval \<times> addr list"
    by (cases x) (auto simp: list_ex_iff)
  have "(\<Union>x \<in> set (meet_audio_addrs reg). set (?item x)) =
        {(p, pkt) | p. p \<noteq> sender \<and>
              (\<exists>mid addrs. (mid, addrs) \<in> set (meet_audio_addrs reg) \<and> ?hit addrs \<and> p \<in> set addrs)}"
    (is "?L = ?R")
  proof (rule set_eqI)
    fix d
    show "d \<in> ?L \<longleftrightarrow> d \<in> ?R"
    proof
      assume "d \<in> ?L"
      then obtain x where x: "x \<in> set (meet_audio_addrs reg)" and d: "d \<in> set (?item x)" by blast
      from d have h: "?hit (snd x)" and "d \<in> {(p, pkt) | p. p \<in> set (snd x) \<and> p \<noteq> sender}"
        unfolding B by (auto split: if_splits)
      then obtain p where p: "d = (p, pkt)" "p \<in> set (snd x)" "p \<noteq> sender" by blast
      have "(fst x, snd x) \<in> set (meet_audio_addrs reg)" using x by simp
      with h p show "d \<in> ?R" by blast
    next
      assume "d \<in> ?R"
      then obtain p mid addrs where p: "d = (p, pkt)" "p \<noteq> sender"
        "(mid, addrs) \<in> set (meet_audio_addrs reg)" "?hit addrs" "p \<in> set addrs" by blast
      then have "d \<in> set (?item (mid, addrs))" unfolding B by (cases p) auto
      with p(3) show "d \<in> ?L" by blast
    qed
  qed
  with A show ?thesis by (simp add: audio_udp_listener_def)
qed

theorem audio_forwarded_by_ip_witness:
  "[9 :: byte] \<noteq> [] \<and>
   set (audio_udp_listener room1 (''10.0.0.1'', VInt 5001) [9]) = {((''10.0.0.2'', VInt 6001), [9])}"
proof -
  have "[9 :: byte] \<noteq> []" by simp
  from audio_forwarded_by_ip[OF this, of room1 "(''10.0.0.1'', VInt 5001)"]
  show ?thesis
    by (simp add: audio_udp_listener_def room1_def)
qed


section \<open>Properties of the control channel\<close>

text \<open>
  Claim C3, as stated, has a handshake without meeting id rejected. The handler only tests
  the truthiness of the unpickled object (line 77); a non-empty dictionary is registered
  whatever keys it lacks, with \<^verbatim>\<open>None\<close> for a missing value. Here a handshake without
  \<^verbatim>\<open>meet_id\<close> creates the meeting \<^verbatim>\<open>None\<close> and fills the address set and both reverse indexes.
\<close>

theorem missing_meeting_id_counterexample:
  "handshake empty_registry 1 (''10.0.0.9'', VInt 40009)
      (Inr (Dict [(''username'', VStr ''bob''), (''video_udp_port'', VInt 5000)]))
   = Registered
       \<lparr>meet_general_clients = [VNone \<mapsto> [(1, (''10.0.0.9'', VInt 40009), VStr ''bob'')]],
        meet_video_addrs = [(VNone, [(''10.0.0.9'', VInt 5000)])],
        meet_audio_addrs = [],
        udp_to_meet = [(''10.0.0.9'', VInt 5000) \<mapsto> VNone],
        udp_to_user = [(''10.0.0.9'', VInt 5000) \<mapsto> VStr ''bob'']\<rparr>
       VNone"
  by (simp add: handshake_def register_def empty_registry_def dict_get_def set_add_def Let_def)

text \<open>
  Claim C3, amended. When the first message cannot be read or unpickled (\<open>Inl\<close>), is
  falsy (\<^verbatim>\<open>None\<close> from a closed connection, an empty dictionary, zero, an empty string) or is
  not a dictionary, the handler closes the connection without registering, and the registry
  is unchanged. The \<^verbatim>\<open>finally\<close> block still filters the client list of the meeting
  \<^verbatim>\<open>None\<close> by the connection's address, hence the premise that this address is not listed
  there.
\<close>

theorem bad_handshake_no_registration:
  assumes "r = Inl e \<or> (\<exists>info. r = Inr info \<and> (\<not> truthy_obj info \<or> (\<exists>v. info = Atom v)))"
    and "\<forall>l. meet_general_clients reg VNone = Some l \<longrightarrow> l \<noteq> [] \<and> (\<forall>x \<in> set l. fst (snd x) \<noteq> addr)"
  shows "handshake reg conn addr r = Rejected reg"
proof -
  have d: "deregister reg VNone addr = reg"
  proof (cases "meet_general_clients reg VNone")
    case None
    then show ?thesis by (simp add: deregister_def)
  next
    case (Some l)
    with assms(2) have l: "l \<noteq> []" "\<forall>x \<in> set l. fst (snd x) \<noteq> addr" by auto
    then have f: "filter (\<lambda>x. fst (snd x) \<noteq> addr) l = l" by (simp add: filter_id_conv)
    have "(meet_general_clients reg)(VNone \<mapsto> l) = meet_general_clients reg"
      using Some by (simp add: fun_upd_idem)
    with Some l f show ?thesis by (simp add: deregister_def)
  qed
  from assms(1) show ?thesis
    by (auto simp: handshake_def d split: pyobj.splits)
qed

theorem bad_handshake_no_registration_witness:
  "handshake room1 3 (''10.0.0.9'', VInt 40009) (Inl UnpicklingError) = Rejected room1 \<and>
   handshake room1 3 (''10.0.0.9'', VInt 40009) (Inr (Dict [])) = Rejected room1 \<and>
   handshake room1 3 (''10.0.0.9'', VInt 40009) (Inr (Atom (VInt 5))) = Rejected room1"
proof -
  have f: "\<forall>l. meet_general_clients room1 VNone = Some l \<longrightarrow>
             l \<noteq> [] \<and> (\<forall>x \<in> set l. fst (snd x) \<noteq> (''10.0.0.9'', VInt 40009))"
    by (simp add: room1_def)
  show ?thesis
    using bad_handshake_no_registration[where r="Inl UnpicklingError" and reg=room1, OF _ f, of UnpicklingError 3]
      bad_handshake_no_registration[where r="Inr (Dict [])" and reg=room1, OF _ f, of UnpicklingError 3]
      bad_handshake_no_registration[where r="Inr (Atom (VInt 5))" and reg=room1, OF _ f, of UnpicklingError 3]
    by simp
qed


lemma broadcast_count:
  "length (filter (\<lambda>d. d = (c, x)) (broadcast ok addr x peers)) =
     (if ok c x then length (filter (\<lambda>p. fst p = c \<and> fst (snd p) \<noteq> addr) peers) else 0)"
proof (induction peers)
  case Nil
  show ?case by simp
next
  case (Cons p peers)
  obtain p_conn p_addr p_user where p: "p = (p_conn, p_addr, p_user)" by (cases p) auto
  show ?case
    by (cases "p_addr = addr"; cases "ok p_conn x"; cases "p_conn = c") (use Cons p in auto)
qed

lemma broadcast_events:
  "d \<in> set (broadcast ok addr x peers) \<Longrightarrow> snd d = x"
proof (induction peers)
  case Nil
  then show ?case by simp
next
  case (Cons p peers)
  obtain p_conn p_addr p_user where p: "p = (p_conn, p_addr, p_user)" by (cases p) auto
  from Cons p show ?case by (auto split: if_splits)
qed

lemma relay_file_events:
  "d \<in> set (snd (relay_file ok addr peers st remaining)) \<Longrightarrow> \<exists>chunk. snd d = SendAll chunk"
proof (induction ok addr peers st remaining rule: relay_file.induct)
  case (1 ok addr peers st remaining)
  show ?case
  proof (cases "remaining > 0")
    case False
    with "1.prems" show ?thesis by (simp add: relay_file.simps[of ok addr peers st remaining])
  next
    case True
    obtain c st1 where r: "recv_exact st (nat (min 1024 remaining)) [] = (c, st1)"
      by (cases "recv_exact st (nat (min 1024 remaining)) []") auto
    show ?thesis
    proof (cases c)
      case None
      with "1.prems" True r show ?thesis
        by (simp add: relay_file.simps[of ok addr peers st remaining])
    next
      case (Some chunk)
      show ?thesis
      proof (cases "chunk = []")
        case True
        with "1.prems" \<open>remaining > 0\<close> r Some show ?thesis
          by (simp add: relay_file.simps[of ok addr peers st remaining])
      next
        case False
        obtain st2 outs where rf: "relay_file ok addr peers st1 (remaining - int (length chunk)) = (st2, outs)"
          by (cases "relay_file ok addr peers st1 (remaining - int (length chunk))") auto
        from "1.prems" True r Some False rf
        have "d \<in> set (broadcast ok addr (SendAll chunk) peers) \<or> d \<in> set outs"
          by (simp add: relay_file.simps[of ok addr peers st remaining])
        then show ?thesis
        proof
          assume "d \<in> set (broadcast ok addr (SendAll chunk) peers)"
          then show ?thesis by (auto dest: broadcast_events)
        next
          assume "d \<in> set outs"
          then have "d \<in> set (snd (relay_file ok addr peers st1 (remaining - int (length chunk))))"
            using rf by simp
          from "1.IH"[OF True refl r[symmetric] Some False this] show ?thesis .
        qed
      qed
    qed
  qed
qed

lemma relay_message_pickles:
  assumes "msg \<noteq> Atom VNone"
    and "relay_message ok reg meet_id addr (Inr msg) st = (step, st', outs)"
  shows "filter (\<lambda>d. d = (c, SendPickle msg)) outs =
         filter (\<lambda>d. d = (c, SendPickle msg))
           (broadcast ok addr (SendPickle msg)
              (case meet_general_clients reg meet_id of None \<Rightarrow> [] | Some l \<Rightarrow> l))"
proof -
  let ?peers = "case meet_general_clients reg meet_id of None \<Rightarrow> [] | Some l \<Rightarrow> l"
  let ?b = "broadcast ok addr (SendPickle msg) ?peers"
  have nf: "filter (\<lambda>d. d = (c, SendPickle msg)) (snd (relay_file ok addr ?peers st sz)) = []" for sz
    by (auto simp: filter_empty_conv dest: relay_file_events)
  from assms have "outs = ?b \<or> (\<exists>sz. outs = ?b @ snd (relay_file ok addr ?peers st sz))"
    by (auto simp: relay_message_def Let_def split: pyobj.splits if_splits pyval.splits prod.splits)
       (metis snd_conv)
  then show ?thesis using nf by auto
qed

text \<open>
  Claim C6, as stated, covers every message after the handshake. A message that unpickles to
  \<^verbatim>\<open>None\<close> is taken for the end of the connection (line 101): the loop ends and no peer
  receives anything, although two other participants are registered. Below, the connection
  delivers the four-byte length prefix and the four bytes of a pickled \<^verbatim>\<open>None\<close>.
\<close>

theorem none_message_counterexample:
  "relay_iteration (\<lambda>b. if b = [128, 4, 78, 46] then Inr (Atom VNone) else Inl UnpicklingError)
      (\<lambda>c x. True) trio (VStr ''Room1'') (''10.0.0.1'', VInt 40001)
      [[0, 0, 0, 4, 128, 4, 78, 46]]
   = (Break, [], [])"
proof -
  have 1: "recv_exact [[0, 0, 0, 4, 128, 4, 78, 46]] 4 [] = (Some [0, 0, 0, 4], [[128, 4, 78, 46]])"
    by (simp add: recv_exact.simps)
  have 2: "recv_exact [[128, 4, 78, 46]] 4 [] = (Some [128, 4, 78, 46], [])"
    by (simp add: recv_exact.simps)
  have 3: "be_nat [0, 0, 0, 4] = 4" by (simp add: be_nat_def)
  show ?thesis
    by (simp add: relay_iteration_def recv_pickle_prefixed_def 1 2 3 relay_message_def)
qed

text \<open>
  Claim C6, amended to messages other than \<^verbatim>\<open>None\<close>. Such a message, received from the
  participant at \<open>addr\<close> in meeting \<open>meet_id\<close>, is handed to a connection \<open>c\<close> once
  for every client entry of \<open>c\<close> in that meeting whose address differs from \<open>addr\<close>,
  provided the send on \<open>c\<close> succeeds, and not at all otherwise; the sends on other
  connections, failing or not, do not enter. A live TCP connection is identified by its peer
  address and registers once: when the entries of the meeting have distinct connections and
  exactly the sender's connection \<open>conn\<close> has the address \<open>addr\<close>, every other
  registered connection whose send succeeds gets the message exactly once, and the sender's
  connection never.
\<close>

theorem broadcast_once_to_each_peer:
  assumes "msg \<noteq> Atom VNone"
    and "relay_message ok reg meet_id addr (Inr msg) st = (step, st', outs)"
  shows "length (filter (\<lambda>d. d = (c, SendPickle msg)) outs) =
           (if ok c (SendPickle msg)
            then length (filter (\<lambda>p. fst p = c \<and> fst (snd p) \<noteq> addr)
                    (case meet_general_clients reg meet_id of None \<Rightarrow> [] | Some l \<Rightarrow> l))
            else 0) \<and>
         (\<forall>peers conn.
            meet_general_clients reg meet_id = Some peers \<and> distinct (map fst peers) \<and>
            (\<forall>p \<in> set peers. fst p = conn \<longleftrightarrow> fst (snd p) = addr) \<longrightarrow>
            length (filter (\<lambda>d. d = (c, SendPickle msg)) outs) =
              (if c \<noteq> conn \<and> c \<in> fst ` set peers \<and> ok c (SendPickle msg) then 1 else 0))"
proof -
  let ?peers = "case meet_general_clients reg meet_id of None \<Rightarrow> [] | Some l \<Rightarrow> l"
  have 1: "length (filter (\<lambda>d. d = (c, SendPickle msg)) outs) =
        (if ok c (SendPickle msg)
         then length (filter (\<lambda>p. fst p = c \<and> fst (snd p) \<noteq> addr) ?peers) else 0)"
    using relay_message_pickles[OF assms(1,2), of c]
    by (simp add: broadcast_count)
  have 4: "length (filter (\<lambda>d. d = (c, SendPickle msg)) outs) =
              (if c \<noteq> conn \<and> c \<in> fst ` set peers \<and> ok c (SendPickle msg) then 1 else 0)"
    if p: "meet_general_clients reg meet_id = Some peers" and d: "distinct (map fst peers)"
      and a: "\<forall>p \<in> set peers. fst p = conn \<longleftrightarrow> fst (snd p) = addr"
    for peers conn
  proof -
    have 2: "filter (\<lambda>p. fst p = c \<and> fst (snd p) \<noteq> addr) peers =
           (if c \<noteq> conn then filter (\<lambda>p. fst p = c) peers else [])"
      using a by (auto simp: filter_empty_conv intro!: filter_cong)
    have 3: "length (filter (\<lambda>p. fst p = c) peers) = (if c \<in> fst ` set peers then 1 else 0)"
      using d
    proof (induction peers)
      case Nil
      show ?case by simp
    next
      case (Cons q qs)
      then show ?case by (auto simp: filter_empty_conv image_iff)
    qed
    show ?thesis unfolding 1 using p 2 3 by auto
  qed
  show ?thesis using 1 4 by blast
qed

theorem broadcast_once_to_each_peer_witness:
  "relay_message (\<lambda>c x. c \<noteq> 2) trio (VStr ''Room1'') (''10.0.0.1'', VInt 40001)
      (Inr (Dict [(''msg_type'', VStr ''chat''), (''message'', VStr ''hi'')])) []
    = (Continue, [], [(3, SendPickle (Dict [(''msg_type'', VStr ''chat''), (''message'', VStr ''hi'')]))]) \<and>
   length (filter (\<lambda>d. d = (3, SendPickle (Dict [(''msg_type'', VStr ''chat''), (''message'', VStr ''hi'')])))
      [(3, SendPickle (Dict [(''msg_type'', VStr ''chat''), (''message'', VStr ''hi'')]))]) = 1"
proof -
  let ?msg = "Dict [(''msg_type'', VStr ''chat''), (''message'', VStr ''hi'')]"
  let ?peers = "[(1, (''10.0.0.1'', VInt 40001), VStr ''A''),
                 (2, (''10.0.0.2'', VInt 40002), VStr ''B''),
                 (3 :: nat, (''10.0.0.3'', VInt 40003) :: addr, VStr ''C'')]"
  have a1: "?msg \<noteq> Atom VNone" by simp
  have a2: "meet_general_clients trio (VStr ''Room1'') = Some ?peers" by (simp add: trio_def)
  have a3: "distinct (map fst ?peers)" by simp
  have a4: "\<forall>p \<in> set ?peers. fst p = (1::nat) \<longleftrightarrow> fst (snd p) = (''10.0.0.1'', VInt 40001)" by simp
  have a5: "relay_message (\<lambda>c x. c \<noteq> 2) trio (VStr ''Room1'') (''10.0.0.1'', VInt 40001) (Inr ?msg) []
    = (Continue, [], [(3, SendPickle ?msg)])"
    by (simp add: relay_message_def trio_def dict_get_def)
  from broadcast_once_to_each_peer[OF a1 a5, of 3, THEN conjunct2, rule_format, of ?peers 1] a2 a3 a4 a5
  show ?thesis by simp
qed











section \<open>Properties of the registry\<close>






















end
